theory Spec2Isabelle
  imports Complex_Main "HOL-Library.AList" "HOL-Library.Sublist"
begin

section \<open>Python values used by app.py\<close>

text \<open>
  Exceptions the program can meet. The first group is raised by Python itself on
  malformed JSON data, the second by Selenium, the last by the HTTP client.
\<close>

datatype exn =
    AttributeError
  | KeyError
  | WebDriverException
  | TimeoutException
  | NoSuchElementException
  | InvalidSelectorException
  | RequestException

text \<open>
  A key of a decoded JSON object: not there, there with the value \<open>null\<close> (Python's
  \<open>None\<close>), or there with a value.
\<close>

datatype 'a field = Absent | Null | Present 'a

text \<open>
  A Python string is held as its UTF-8 encoding, a list of bytes. The characters for
  which \<open>str.isspace\<close> holds are the 29 code points U+0009 to U+000D, U+001C to U+001F,
  U+0020, U+0085, U+00A0, U+1680, U+2000 to U+200A, U+2028, U+2029, U+202F, U+205F and
  U+3000; \<open>whitespace\<close> lists their encodings.
\<close>

definition whitespace :: "string list" where
  "whitespace =
     [[CHR 0x09], [CHR 0x0A], [CHR 0x0B], [CHR 0x0C], [CHR 0x0D],
      [CHR 0x1C], [CHR 0x1D], [CHR 0x1E], [CHR 0x1F], [CHR 0x20],
      [CHR 0xC2, CHR 0x85], [CHR 0xC2, CHR 0xA0],
      [CHR 0xE1, CHR 0x9A, CHR 0x80],
      [CHR 0xE2, CHR 0x80, CHR 0x80], [CHR 0xE2, CHR 0x80, CHR 0x81],
      [CHR 0xE2, CHR 0x80, CHR 0x82], [CHR 0xE2, CHR 0x80, CHR 0x83],
      [CHR 0xE2, CHR 0x80, CHR 0x84], [CHR 0xE2, CHR 0x80, CHR 0x85],
      [CHR 0xE2, CHR 0x80, CHR 0x86], [CHR 0xE2, CHR 0x80, CHR 0x87],
      [CHR 0xE2, CHR 0x80, CHR 0x88], [CHR 0xE2, CHR 0x80, CHR 0x89],
      [CHR 0xE2, CHR 0x80, CHR 0x8A], [CHR 0xE2, CHR 0x80, CHR 0xA8],
      [CHR 0xE2, CHR 0x80, CHR 0xA9], [CHR 0xE2, CHR 0x80, CHR 0xAF],
      [CHR 0xE2, CHR 0x81, CHR 0x9F], [CHR 0xE3, CHR 0x80, CHR 0x80]]"

text \<open>
  Dropping the encoded characters of a list from the front of a string, as long as one
  of them stands there. No encoding of a character is the beginning of the encoding of
  another one, and none ends another one, so on encoded strings this drops whole
  characters, from the front and, on the reversed string, from the end.
\<close>

function drop_spaces :: "string list \<Rightarrow> string \<Rightarrow> string" where
  "drop_spaces encodings s =
     (case find (\<lambda>ws. ws \<noteq> [] \<and> prefix ws s) encodings of
        None \<Rightarrow> s
      | Some ws \<Rightarrow> drop_spaces encodings (drop (length ws) s))"
  by pat_completeness auto
termination
proof (relation "measure (\<lambda>(encodings, s). length s)")
  show "wf (measure (\<lambda>(encodings :: string list, s :: string). length s))" by simp
next
  fix encodings :: "string list" and s ws :: string
  assume "find (\<lambda>ws. ws \<noteq> [] \<and> prefix ws s) encodings = Some ws"
  then have "ws \<noteq> []" and "prefix ws s"
    by (auto simp: find_Some_iff)
  then have "0 < length ws" and "length ws \<le> length s"
    by (simp_all add: prefix_length_le)
  then have "length s - length ws < length s"
    by arith
  then show "((encodings, drop (length ws) s), (encodings, s)) \<in>
      measure (\<lambda>(encodings, s). length s)"
    by simp
qed

declare drop_spaces.simps [simp del]

text \<open>\<open>s.lstrip()\<close>, \<open>s.rstrip()\<close> and \<open>s.strip()\<close>, without argument.\<close>

definition lstrip :: "string \<Rightarrow> string" where
  "lstrip s = drop_spaces whitespace s"

definition rstrip :: "string \<Rightarrow> string" where
  "rstrip s = rev (drop_spaces (map rev whitespace) (rev s))"

definition strip :: "string \<Rightarrow> string" where
  "strip s = rstrip (lstrip s)"

text \<open>
  \<open>s.split("\n")\<close>: the pieces between line feeds. The result is never empty: the empty
  string gives one empty piece.
\<close>

fun split_lines :: "string \<Rightarrow> string list" where
  "split_lines [] = [[]]"
| "split_lines (c # cs) =
     (if c = CHR 0x0A then [] # split_lines cs
      else (c # hd (split_lines cs)) # tl (split_lines cs))"

text \<open>\<open>sep.join(xs)\<close>.\<close>

fun join :: "string \<Rightarrow> string list \<Rightarrow> string" where
  "join sep [] = []"
| "join sep [x] = x"
| "join sep (x # y # ys) = x @ sep @ join sep (y # ys)"

section \<open>Grouping the articles by source\<close>

text \<open>
  An article as the news service returns it, reduced to the two keys the program reads:
  \<open>source\<close> (an object with a key \<open>name\<close>) and \<open>title\<close>.
\<close>

record article =
  a_source :: "string field field"
  a_title :: "string field"

text \<open>
  The dictionary \<open>grouped\<close>. A Python dictionary keeps its keys in insertion order, and
  the message is later built in that order, so it is an association list;
  \<open>AList.update\<close> replaces the value of a key in place and appends a new key at the end.
  A key is a source name, or \<open>None\<close> when the name is \<open>null\<close>.
\<close>

type_synonym grouped = "(string option \<times> string list) list"

text \<open>
  \<open>article.get("source", {}).get("name", "Unknown Source")\<close>: a \<open>null\<close> source has no
  method \<open>get\<close>.
\<close>

definition article_source :: "article \<Rightarrow> exn + string option" where
  "article_source a =
     (case a_source a of
        Absent \<Rightarrow> Inr (Some ''Unknown Source'')
      | Null \<Rightarrow> Inl AttributeError
      | Present d \<Rightarrow>
          (case d of
             Absent \<Rightarrow> Inr (Some ''Unknown Source'')
           | Null \<Rightarrow> Inr None
           | Present n \<Rightarrow> Inr (Some n)))"

text \<open>\<open>article.get("title", "").strip()\<close>: a \<open>null\<close> title has no method \<open>strip\<close>.\<close>

definition article_headline :: "article \<Rightarrow> exn + string" where
  "article_headline a =
     (case a_title a of
        Absent \<Rightarrow> Inr (strip [])
      | Null \<Rightarrow> Inl AttributeError
      | Present t \<Rightarrow> Inr (strip t))"

text \<open>The body of the loop of \<open>group_articles_by_source\<close>, for one article.\<close>

definition group_article :: "int \<Rightarrow> article \<Rightarrow> grouped \<Rightarrow> exn + grouped" where
  "group_article max_per_source a grouped =
     (case article_source a of
        Inl e \<Rightarrow> Inl e
      | Inr source \<Rightarrow>
          (case article_headline a of
             Inl e \<Rightarrow> Inl e
           | Inr headline \<Rightarrow>
               if headline = [] then Inr grouped
               else
                 (let grouped1 =
                        (if map_of grouped source = None
                         then AList.update source [] grouped else grouped)
                  in case map_of grouped1 source of
                       None \<Rightarrow> Inl KeyError
                     | Some hs \<Rightarrow>
                         if int (length hs) < max_per_source
                         then Inr (AList.update source (hs @ [headline]) grouped1)
                         else Inr grouped1)))"

fun group_loop :: "int \<Rightarrow> article list \<Rightarrow> grouped \<Rightarrow> exn + grouped" where
  "group_loop max_per_source [] grouped = Inr grouped"
| "group_loop max_per_source (a # articles) grouped =
     (case group_article max_per_source a grouped of
        Inl e \<Rightarrow> Inl e
      | Inr grouped' \<Rightarrow> group_loop max_per_source articles grouped')"

definition group_articles_by_source :: "article list \<Rightarrow> int \<Rightarrow> exn + grouped" where
  "group_articles_by_source articles max_per_source = group_loop max_per_source articles []"

text \<open>
  What the grouping is compared with: the headlines of the articles of one source, in
  the order of the input list. An article counts when its source is the given one and
  its stripped title is not empty.
\<close>

definition headline_of :: "string option \<Rightarrow> article \<Rightarrow> string list" where
  "headline_of s a =
     (if article_source a = Inr s
      then (case article_headline a of Inr h \<Rightarrow> (if h = [] then [] else [h]) | Inl e \<Rightarrow> [])
      else [])"

definition source_headlines :: "string option \<Rightarrow> article list \<Rightarrow> string list" where
  "source_headlines s articles = concat (map (headline_of s) articles)"

text \<open>An article none of whose keys is \<open>null\<close>.\<close>

definition no_null :: "article \<Rightarrow> bool" where
  "no_null a \<longleftrightarrow> a_source a \<noteq> Null \<and> a_title a \<noteq> Null"

section \<open>Composing the message\<close>

text \<open>\<open>str(source)\<close> in an f-string: the name, or \<open>None\<close> for a \<open>null\<close> name.\<close>

definition str_source :: "string option \<Rightarrow> string" where
  "str_source s = (case s of None \<Rightarrow> ''None'' | Some n \<Rightarrow> n)"

text \<open>The inner loop: a headline gets a final full stop when it has none.\<close>

definition headline_line :: "string \<Rightarrow> string" where
  "headline_line headline =
     ''* '' @ (if headline \<noteq> [] \<and> last headline = CHR ''.'' then headline
               else headline @ ''.'')"

definition source_lines :: "string option \<times> string list \<Rightarrow> string list" where
  "source_lines entry =
     (case entry of (source, headlines) \<Rightarrow>
        [str_source source @ '':''] @ map headline_line headlines @ [''''])"

definition create_formatted_message_from_grouping ::
    "grouped \<Rightarrow> string \<Rightarrow> string \<Rightarrow> string \<Rightarrow> string" where
  "create_formatted_message_from_grouping grouped_articles sentiment quote soccer_section =
     join [CHR 0x0A]
       ([''Daily News Summary'', ''''] @
        concat (map source_lines grouped_articles) @
        (if soccer_section \<noteq> [] then [soccer_section, ''''] else []) @
        [''Overall Sentiment: '' @ sentiment] @
        (if quote \<noteq> [] then [''Inspirational Quote: '' @ quote] else []) @
        ['''', ''Have a great day!''])"

text \<open>
  \<open>analyze_sentiment\<close>, over the compound score the sentiment analyser gives a text
  (a parameter: the analyser is a library).
\<close>

definition analyze_sentiment :: "(string \<Rightarrow> real) \<Rightarrow> string \<Rightarrow> string" where
  "analyze_sentiment polarity_scores text =
     (let compound = polarity_scores text in
      if compound \<ge> 0.05 then ''Overall Positive''
      else if compound \<le> - 0.05 then ''Overall Negative''
      else ''Neutral'')"

section \<open>The browser as the program sees it\<close>

text \<open>The values of config.json the dispatcher reads.\<close>

record config =
  CHROME_DRIVER_PATH :: string
  REMOTE_DEBUGGER_ADDRESS :: string
  CONTACTS :: "string list"
  WHATSAPP_URL :: string
  MAX_HEADLINES_PER_SOURCE :: int

text \<open>
  An element of the page: its tag, its attributes, whether it lies inside a
  \<open>footer\<close> element, and whether it is displayed and enabled.
\<close>

record node =
  tag :: string
  attrs :: "(string \<times> string) list"
  in_footer :: bool
  displayed :: bool
  enabled :: bool

definition attr :: "node \<Rightarrow> string \<Rightarrow> string option" where
  "attr n k = map_of (attrs n) k"

datatype locator = ByTagName string | ByXPath string

text \<open>The two conditions of \<open>expected_conditions\<close> the program waits for.\<close>

datatype condition =
    presence_of_element_located locator
  | element_to_be_clickable locator

text \<open>
  The browser is the environment. Time is counted in polling intervals of half a second
  (\<open>WebDriverWait\<close>'s default); every call on the driver takes place at one instant and
  moves the clock to the next one.
  \<^item> \<open>reachable t\<close>: the debugging endpoint accepts a session at instant \<open>t\<close>;
  \<^item> \<open>page t\<close>: the elements of the page at instant \<open>t\<close>, in document order;
  \<^item> \<open>fault t\<close>: the exception the driver raises on a call made at instant \<open>t\<close>,
    whatever the call (a lost session, a stale element, an intercepted click);
  \<^item> \<open>other_xpath\<close>: the answer of the XPath engine to an expression outside the
    forms interpreted below.
\<close>

record browser =
  reachable :: "nat \<Rightarrow> bool"
  page :: "nat \<Rightarrow> node list"
  fault :: "nat \<Rightarrow> exn option"
  other_xpath :: "string \<Rightarrow> node list \<Rightarrow> exn + node list"

subsection \<open>The selectors\<close>

definition dquote :: char where
  "dquote = CHR 0x22"

definition search_box_xpath :: string where
  "search_box_xpath = ''//div[@role='textbox' and @aria-label='Search input textbox']''"

definition message_box_xpath :: string where
  "message_box_xpath = ''//footer//div[@contenteditable='true']''"

text \<open>The f-string \<open>'//span[@title="{contact_name}"]'\<close>: the name is pasted as it is.\<close>

definition contact_xpath :: "string \<Rightarrow> string" where
  "contact_xpath contact_name = ''//span[@title='' @ [dquote] @ contact_name @ [dquote] @ '']''"

text \<open>
  XPath expressions of the form
  \<open>//span[@title="t1" or @title="t2" or ... ]\<close>, each \<open>ti\<close> a literal without a double
  quote, are read as the list of their literals. \<open>title_list lit s\<close> reads the rest \<open>s\<close>
  of the expression, \<open>lit\<close> being the part of the current literal already read.
\<close>

definition title_separator :: string where
  "title_separator = '' or @title='' @ [dquote]"

fun title_list :: "string \<Rightarrow> string \<Rightarrow> string list option" where
  "title_list lit [] = None"
| "title_list lit (c # cs) =
     (if c \<noteq> dquote then title_list (lit @ [c]) cs
      else if cs = '']'' then Some [lit]
      else if take (length title_separator) cs = title_separator
      then map_option (Cons lit) (title_list [] (drop (length title_separator) cs))
      else None)"

definition span_titles :: "string \<Rightarrow> string list option" where
  "span_titles x =
     (let opening = ''//span[@title='' @ [dquote] in
      if take (length opening) x = opening then title_list [] (drop (length opening) x)
      else None)"

text \<open>
  \<open>driver.find_elements(By.XPATH, x)\<close> on a page: the two fixed expressions of the
  program, the title expressions above, and the engine's own answer for anything else.
\<close>

definition xpath_nodes :: "browser \<Rightarrow> string \<Rightarrow> node list \<Rightarrow> exn + node list" where
  "xpath_nodes b x doc =
     (if x = search_box_xpath then
        Inr (filter (\<lambda>n. tag n = ''div'' \<and> attr n ''role'' = Some ''textbox'' \<and>
                          attr n ''aria-label'' = Some ''Search input textbox'') doc)
      else if x = message_box_xpath then
        Inr (filter (\<lambda>n. tag n = ''div'' \<and> in_footer n \<and>
                          attr n ''contenteditable'' = Some ''true'') doc)
      else
        (case span_titles x of
           Some ts \<Rightarrow>
             Inr (filter (\<lambda>n. tag n = ''span'' \<and>
                               (case attr n ''title'' of None \<Rightarrow> False | Some t \<Rightarrow> t \<in> set ts)) doc)
         | None \<Rightarrow> other_xpath b x doc))"

definition find_elements :: "browser \<Rightarrow> locator \<Rightarrow> node list \<Rightarrow> exn + node list" where
  "find_elements b loc doc =
     (case loc of
        ByTagName t \<Rightarrow> Inr (filter (\<lambda>n. tag n = t) doc)
      | ByXPath x \<Rightarrow> xpath_nodes b x doc)"

text \<open>\<open>driver.find_element\<close>: the first match, looked up once.\<close>

definition locate :: "browser \<Rightarrow> locator \<Rightarrow> node list \<Rightarrow> exn + node" where
  "locate b loc doc =
     (case find_elements b loc doc of
        Inl e \<Rightarrow> Inl e
      | Inr [] \<Rightarrow> Inl NoSuchElementException
      | Inr (n # ns) \<Rightarrow> Inr n)"

text \<open>
  One evaluation of a condition by \<open>WebDriverWait.until\<close>. \<open>NoSuchElementException\<close> is
  the exception \<open>until\<close> ignores, and a false value makes it poll again: both are
  \<open>Inr None\<close>. \<open>element_to_be_clickable\<close> looks the first match up and gives it when it is
  displayed and enabled.
\<close>

definition check :: "browser \<Rightarrow> condition \<Rightarrow> node list \<Rightarrow> exn + node option" where
  "check b c doc =
     (case c of
        presence_of_element_located loc \<Rightarrow>
          (case locate b loc doc of
             Inl e \<Rightarrow> (if e = NoSuchElementException then Inr None else Inl e)
           | Inr n \<Rightarrow> Inr (Some n))
      | element_to_be_clickable loc \<Rightarrow>
          (case locate b loc doc of
             Inl e \<Rightarrow> (if e = NoSuchElementException then Inr None else Inl e)
           | Inr n \<Rightarrow> Inr (if displayed n \<and> enabled n then Some n else None)))"

text \<open>
  The loop of \<open>until\<close>: \<open>k\<close> polls are left, the next one at instant \<open>t\<close>. It gives the
  result and the instant after the last poll. A fault of the driver ends the wait, unless
  it is the exception \<open>until\<close> ignores.
\<close>

fun until_poll :: "browser \<Rightarrow> condition \<Rightarrow> nat \<Rightarrow> nat \<Rightarrow> (exn + node) \<times> nat" where
  "until_poll b c 0 t = (Inl TimeoutException, t)"
| "until_poll b c (Suc k) t =
     (case fault b t of
        Some e \<Rightarrow>
          (if e = NoSuchElementException then until_poll b c k (Suc t) else (Inl e, Suc t))
      | None \<Rightarrow>
          (case check b c (page b t) of
             Inl e \<Rightarrow> (Inl e, Suc t)
           | Inr (Some n) \<Rightarrow> (Inr n, Suc t)
           | Inr None \<Rightarrow> until_poll b c k (Suc t)))"

text \<open>
  A timeout of \<open>s\<close> seconds polled every half second: one poll at once and one after each
  interval up to the timeout.
\<close>

definition polls :: "nat \<Rightarrow> nat" where
  "polls seconds = Suc (2 * seconds)"

section \<open>The dispatcher\<close>

text \<open>What is typed into an element by one call of \<open>send_keys\<close>.\<close>

datatype keys = Text string | SHIFT_ENTER | ENTER

text \<open>The calls on the driver and on its elements.\<close>

datatype call =
    Chrome string string
  | Get string
  | Until nat condition
  | FindElement locator
  | Click node
  | SendKeys node keys
  | Quit

text \<open>
  The steps of one contact's sequence. Every call is recorded with the step it belongs
  to and the exception it raised, if any.
\<close>

datatype step =
    Attach | Navigate | AwaitReady | LocateSearch | TypeQuery | SelectContact
  | LocateInput | ComposeSend | Release

datatype entry = Entry (step_of: step) (call_of: call) (raised: "exn option")

text \<open>The records written to the log.\<close>

datatype log_event =
    JobStarted
  | FetchingNews
  | Fetched nat
  | FetchFailed int
  | FetchException exn
  | NoArticles
  | QuoteFailed int
  | QuoteException exn
  | Formatted string
  | Sending string
  | WhatsAppLoaded
  | MessageSent string
  | ErrorSending string exn
  | JobCompleted

record world =
  now :: nat
  trace :: "entry list"
  log :: "log_event list"

text \<open>
  A statement of the program: from a world it gives a value or an exception, and the
  world after it.
\<close>

type_synonym 'a action = "world \<Rightarrow> (exn + 'a) \<times> world"

definition ret :: "'a \<Rightarrow> 'a action" where
  "ret x w = (Inr x, w)"

text \<open>One statement after another: an exception skips what follows.\<close>

definition seq :: "'a action \<Rightarrow> ('a \<Rightarrow> 'b action) \<Rightarrow> 'b action" where
  "seq m f w = (case m w of (Inl e, w') \<Rightarrow> (Inl e, w') | (Inr x, w') \<Rightarrow> f x w')"

text \<open>\<open>try: m except Exception as e: h e\<close>.\<close>

definition try_except :: "'a action \<Rightarrow> (exn \<Rightarrow> 'a action) \<Rightarrow> 'a action" where
  "try_except m h w = (case m w of (Inl e, w') \<Rightarrow> h e w' | (Inr x, w') \<Rightarrow> (Inr x, w'))"

definition logging :: "log_event \<Rightarrow> unit action" where
  "logging ev w = (Inr (), w\<lparr>log := log w @ [ev]\<rparr>)"

text \<open>\<open>time.sleep(seconds)\<close>.\<close>

definition sleep :: "nat \<Rightarrow> unit action" where
  "sleep seconds w = (Inr (), w\<lparr>now := now w + 2 * seconds\<rparr>)"

definition outcome :: "exn + 'a \<Rightarrow> exn option" where
  "outcome r = (case r of Inl e \<Rightarrow> Some e | Inr x \<Rightarrow> None)"

text \<open>
  A call on the driver at the present instant: the browser's fault if there is one,
  else the call's own answer.
\<close>

definition driver_call :: "browser \<Rightarrow> step \<Rightarrow> call \<Rightarrow> (nat \<Rightarrow> exn + 'a) \<Rightarrow> 'a action" where
  "driver_call b s c answer w =
     (let r = (case fault b (now w) of Some e \<Rightarrow> Inl e | None \<Rightarrow> answer (now w)) in
      (r, w\<lparr>now := Suc (now w), trace := trace w @ [Entry s c (outcome r)]\<rparr>))"

text \<open>
  \<open>webdriver.Chrome(service=service, options=chrome_options)\<close> with the option
  \<open>debuggerAddress\<close>: attaches to the running browser.
\<close>

definition webdriver_Chrome :: "browser \<Rightarrow> config \<Rightarrow> unit action" where
  "webdriver_Chrome b cfg =
     driver_call b Attach (Chrome (CHROME_DRIVER_PATH cfg) (REMOTE_DEBUGGER_ADDRESS cfg))
       (\<lambda>t. if reachable b t then Inr () else Inl WebDriverException)"

definition driver_get :: "browser \<Rightarrow> string \<Rightarrow> unit action" where
  "driver_get b url = driver_call b Navigate (Get url) (\<lambda>t. Inr ())"

text \<open>\<open>WebDriverWait(driver, seconds).until(c)\<close>.\<close>

definition wait_until :: "browser \<Rightarrow> step \<Rightarrow> nat \<Rightarrow> condition \<Rightarrow> node action" where
  "wait_until b s seconds c w =
     (case until_poll b c (polls seconds) (now w) of
        (r, t) \<Rightarrow> (r, w\<lparr>now := t, trace := trace w @ [Entry s (Until seconds c) (outcome r)]\<rparr>))"

definition find_element :: "browser \<Rightarrow> step \<Rightarrow> locator \<Rightarrow> node action" where
  "find_element b s loc = driver_call b s (FindElement loc) (\<lambda>t. locate b loc (page b t))"

definition click :: "browser \<Rightarrow> step \<Rightarrow> node \<Rightarrow> unit action" where
  "click b s n = driver_call b s (Click n) (\<lambda>t. Inr ())"

definition send_keys :: "browser \<Rightarrow> step \<Rightarrow> node \<Rightarrow> keys \<Rightarrow> unit action" where
  "send_keys b s n k = driver_call b s (SendKeys n k) (\<lambda>t. Inr ())"

definition driver_quit :: "browser \<Rightarrow> unit action" where
  "driver_quit b = driver_call b Release Quit (\<lambda>t. Inr ())"

text \<open>
  The loop over \<open>message.split("\n")\<close>: each line, then SHIFT+ENTER.
\<close>

fun type_lines :: "browser \<Rightarrow> node \<Rightarrow> string list \<Rightarrow> unit action" where
  "type_lines b message_box [] = ret ()"
| "type_lines b message_box (line # lines) =
     seq (send_keys b ComposeSend message_box (Text line)) (\<lambda>_.
     seq (send_keys b ComposeSend message_box SHIFT_ENTER) (\<lambda>_.
     type_lines b message_box lines))"

text \<open>The body of the \<open>try\<close> of \<open>send_whatsapp_message\<close>.\<close>

definition send_body :: "browser \<Rightarrow> config \<Rightarrow> string \<Rightarrow> string \<Rightarrow> unit action" where
  "send_body b cfg contact_name message =
     seq (webdriver_Chrome b cfg) (\<lambda>_.
     seq (driver_get b (WHATSAPP_URL cfg)) (\<lambda>_.
     seq (wait_until b AwaitReady 20 (presence_of_element_located (ByTagName ''body''))) (\<lambda>_.
     seq (logging WhatsAppLoaded) (\<lambda>_.
     seq (wait_until b LocateSearch 20
            (presence_of_element_located (ByXPath search_box_xpath))) (\<lambda>search_box.
     seq (click b LocateSearch search_box) (\<lambda>_.
     seq (send_keys b TypeQuery search_box (Text contact_name)) (\<lambda>_.
     seq (sleep 2) (\<lambda>_.
     seq (find_element b SelectContact (ByXPath (contact_xpath contact_name))) (\<lambda>contact.
     seq (click b SelectContact contact) (\<lambda>_.
     seq (sleep 2) (\<lambda>_.
     seq (wait_until b LocateInput 20
            (element_to_be_clickable (ByXPath message_box_xpath))) (\<lambda>message_box.
     seq (type_lines b message_box (split_lines message)) (\<lambda>_.
     seq (send_keys b ComposeSend message_box ENTER) (\<lambda>_.
     seq (logging (MessageSent contact_name)) (\<lambda>_.
     seq (sleep 5) (\<lambda>_.
     driver_quit b))))))))))))))))"

definition send_whatsapp_message :: "browser \<Rightarrow> config \<Rightarrow> string \<Rightarrow> string \<Rightarrow> unit action" where
  "send_whatsapp_message b cfg contact_name message =
     seq (logging (Sending contact_name)) (\<lambda>_.
     try_except (send_body b cfg contact_name message)
       (\<lambda>e. logging (ErrorSending contact_name e)))"

text \<open>The loop \<open>for contact in CONTACTS\<close> of \<open>job\<close>.\<close>

fun send_to_contacts :: "browser \<Rightarrow> config \<Rightarrow> string list \<Rightarrow> string \<Rightarrow> unit action" where
  "send_to_contacts b cfg [] formatted_message = ret ()"
| "send_to_contacts b cfg (contact # contacts) formatted_message =
     seq (send_whatsapp_message b cfg contact formatted_message) (\<lambda>_.
     send_to_contacts b cfg contacts formatted_message)"

section \<open>The job\<close>

text \<open>
  The answer of a web service: the request raised, or it gave a status code and a
  body, whose decoding gives the value the program reads or raises.
\<close>

datatype 'a response = Raised exn | Reply int "exn + 'a"

text \<open>
  The services the job calls: the news service (the value of \<open>articles\<close> in its body, the
  empty list when the key is absent), the sentiment analyser and the quote service (the
  values of \<open>q\<close> and \<open>a\<close> of the first quote, empty when absent).
\<close>

record services =
  news :: "article list response"
  polarity_scores :: "string \<Rightarrow> real"
  zenquotes :: "(string \<times> string) response"

definition fetch_news :: "services \<Rightarrow> article list action" where
  "fetch_news sv =
     seq (logging FetchingNews) (\<lambda>_.
     case news sv of
       Raised e \<Rightarrow> seq (logging (FetchException e)) (\<lambda>_. ret [])
     | Reply status_code body \<Rightarrow>
         if status_code = 200 then
           (case body of
              Inl e \<Rightarrow> seq (logging (FetchException e)) (\<lambda>_. ret [])
            | Inr articles \<Rightarrow> seq (logging (Fetched (length articles))) (\<lambda>_. ret articles))
         else seq (logging (FetchFailed status_code)) (\<lambda>_. ret []))"

definition fetch_inspirational_quote :: "services \<Rightarrow> string action" where
  "fetch_inspirational_quote sv =
     (case zenquotes sv of
        Raised e \<Rightarrow> seq (logging (QuoteException e)) (\<lambda>_. ret [])
      | Reply status_code body \<Rightarrow>
          if status_code = 200 then
            (case body of
               Inl e \<Rightarrow> seq (logging (QuoteException e)) (\<lambda>_. ret [])
             | Inr (quote, author) \<Rightarrow> ret ([dquote] @ quote @ [dquote] @ '' - '' @ author))
          else seq (logging (QuoteFailed status_code)) (\<lambda>_. ret []))"

text \<open>An exception of a pure computation, raised where the job makes the call.\<close>

definition raising :: "exn + 'a \<Rightarrow> 'a action" where
  "raising r w = (r, w)"

definition job :: "services \<Rightarrow> browser \<Rightarrow> config \<Rightarrow> unit action" where
  "job sv b cfg =
     seq (logging JobStarted) (\<lambda>_.
     seq (fetch_news sv) (\<lambda>articles.
     if articles = [] then logging NoArticles
     else
       seq (raising (group_articles_by_source articles (MAX_HEADLINES_PER_SOURCE cfg)))
         (\<lambda>grouped_articles.
       let flattened_text = join '' '' (map (\<lambda>(source, headlines). join '' '' headlines)
                                          grouped_articles);
           sentiment = analyze_sentiment (polarity_scores sv) flattened_text in
       seq (fetch_inspirational_quote sv) (\<lambda>quote.
       let formatted_message =
             create_formatted_message_from_grouping grouped_articles sentiment quote [] in
       seq (logging (Formatted formatted_message)) (\<lambda>_.
       seq (send_to_contacts b cfg (CONTACTS cfg) formatted_message) (\<lambda>_.
       logging JobCompleted))))))"

section \<open>What a run leaves behind\<close>

text \<open>The calls and the log records a run from \<open>w\<close> to \<open>w'\<close> added.\<close>

definition added_calls :: "world \<Rightarrow> world \<Rightarrow> entry list" where
  "added_calls w w' = drop (length (trace w)) (trace w')"

definition added_log :: "world \<Rightarrow> world \<Rightarrow> log_event list" where
  "added_log w w' = drop (length (log w)) (log w')"

text \<open>The keys of the calls of \<open>send_keys\<close> on the message box, in order.\<close>

fun typed :: "entry list \<Rightarrow> keys list" where
  "typed [] = []"
| "typed (Entry ComposeSend (SendKeys n k) r # cs) = k # typed cs"
| "typed (c # cs) = typed cs"

text \<open>The exceptions raised by the calls, in order.\<close>

fun raised_in :: "entry list \<Rightarrow> exn list" where
  "raised_in [] = []"
| "raised_in (c # cs) = (case raised c of None \<Rightarrow> raised_in cs | Some e \<Rightarrow> e # raised_in cs)"

text \<open>
  Read off the log: the contacts whose sequence was started, those a message was
  reported sent to, and the failures reported, each with its contact and its cause.
\<close>

fun attempted :: "log_event list \<Rightarrow> string list" where
  "attempted [] = []"
| "attempted (Sending c # evs) = c # attempted evs"
| "attempted (ev # evs) = attempted evs"

fun delivered :: "log_event list \<Rightarrow> string list" where
  "delivered [] = []"
| "delivered (MessageSent c # evs) = c # delivered evs"
| "delivered (ev # evs) = delivered evs"

fun failures :: "log_event list \<Rightarrow> (string \<times> exn) list" where
  "failures [] = []"
| "failures (ErrorSending c e # evs) = (c, e) # failures evs"
| "failures (ev # evs) = failures evs"

text \<open>
  \<open>follows m ss ks evs\<close>: from every world, the action \<open>m\<close> adds calls to the trace and
  records to the log such that
  \<^item> when it returns, the calls are those of the steps \<open>ss\<close>, none raised, the keys typed
    into the message box are \<open>ks\<close> and the records are \<open>evs\<close>;
  \<^item> when it raises \<open>e\<close>, the last call raised \<open>e\<close> and no call before it raised, the
    calls are those of a prefix of \<open>ss\<close>, the keys typed are a prefix of \<open>ks\<close> and the
    records are a prefix of \<open>evs\<close>.
\<close>

definition follows ::
    "'a action \<Rightarrow> step list \<Rightarrow> keys list \<Rightarrow> log_event list \<Rightarrow> bool" where
  "follows m ss ks evs \<longleftrightarrow>
     (\<forall>w. \<exists>new lg.
        trace (snd (m w)) = trace w @ new \<and> log (snd (m w)) = log w @ lg \<and>
        (case fst (m w) of
           Inr x \<Rightarrow>
             map step_of new = ss \<and> list_all (\<lambda>c. raised c = None) new \<and>
             typed new = ks \<and> lg = evs
         | Inl e \<Rightarrow>
             (\<exists>pre c. new = pre @ [c] \<and> list_all (\<lambda>c. raised c = None) pre \<and>
                      raised c = Some e) \<and>
             prefix (map step_of new) ss \<and> prefix (typed new) ks \<and> prefix lg evs))"

text \<open>The steps of the calls of one contact's sequence, when nothing fails.\<close>

definition step_script :: "string \<Rightarrow> step list" where
  "step_script message =
     [Attach, Navigate, AwaitReady, LocateSearch, LocateSearch, TypeQuery,
      SelectContact, SelectContact, LocateInput] @
     concat (map (\<lambda>line. [ComposeSend, ComposeSend]) (split_lines message)) @
     [ComposeSend, Release]"

text \<open>The keys the loop over the lines and the final ENTER type, when nothing fails.\<close>

definition message_keys :: "string \<Rightarrow> keys list" where
  "message_keys message =
     concat (map (\<lambda>line. [Text line, SHIFT_ENTER]) (split_lines message)) @ [ENTER]"

definition is_text :: "keys \<Rightarrow> bool" where
  "is_text k = (case k of Text s \<Rightarrow> True | SHIFT_ENTER \<Rightarrow> False | ENTER \<Rightarrow> False)"

text \<open>
  The calls of one contact's sequence when nothing fails, without the elements they
  act on: \<open>forget\<close> puts \<open>no_node\<close> in the place of the element of a call.
\<close>

definition no_node :: node where
  "no_node = \<lparr>tag = [], attrs = [], in_footer = False, displayed = False, enabled = False\<rparr>"

fun forget :: "call \<Rightarrow> call" where
  "forget (Click n) = Click no_node"
| "forget (SendKeys n k) = SendKeys no_node k"
| "forget c = c"

text \<open>The calls that look an element up: the waits and \<open>find_element\<close>.\<close>

definition is_lookup :: "call \<Rightarrow> bool" where
  "is_lookup c = (case c of Until seconds cond \<Rightarrow> True | FindElement loc \<Rightarrow> True | _ \<Rightarrow> False)"

definition call_script :: "config \<Rightarrow> string \<Rightarrow> string \<Rightarrow> call list" where
  "call_script cfg contact_name message =
     [Chrome (CHROME_DRIVER_PATH cfg) (REMOTE_DEBUGGER_ADDRESS cfg),
      Get (WHATSAPP_URL cfg),
      Until 20 (presence_of_element_located (ByTagName ''body'')),
      Until 20 (presence_of_element_located (ByXPath search_box_xpath)),
      Click no_node,
      SendKeys no_node (Text contact_name),
      FindElement (ByXPath (contact_xpath contact_name)),
      Click no_node,
      Until 20 (element_to_be_clickable (ByXPath message_box_xpath))] @
     concat (map (\<lambda>line. [SendKeys no_node (Text line), SendKeys no_node SHIFT_ENTER])
               (split_lines message)) @
     [SendKeys no_node ENTER, Quit]"

text \<open>
  \<open>calls_follow m cs\<close>: from every world, the calls the action \<open>m\<close> adds to the trace are,
  without their elements, the calls \<open>cs\<close> when it returns and a prefix of \<open>cs\<close> when it
  raises.
\<close>

definition calls_follow :: "'a action \<Rightarrow> call list \<Rightarrow> bool" where
  "calls_follow m cs \<longleftrightarrow>
     (\<forall>w. \<exists>new.
        trace (snd (m w)) = trace w @ new \<and>
        (case fst (m w) of
           Inr x \<Rightarrow> map (forget \<circ> call_of) new = cs
         | Inl e \<Rightarrow> prefix (map (forget \<circ> call_of) new) cs))"

section \<open>Example inputs\<close>

text \<open>
  Six articles. One title has spaces around it, one is absent, one ends with a no-break
  space (U+00A0), and the only title of the source CNN is an em space (U+2003).
\<close>

definition ex_articles :: "article list" where
  "ex_articles =
     [\<lparr>a_source = Present (Present ''BBC''), a_title = Present '' x ''\<rparr>,
      \<lparr>a_source = Absent, a_title = Present ''y''\<rparr>,
      \<lparr>a_source = Present (Present ''BBC''), a_title = Absent\<rparr>,
      \<lparr>a_source = Present (Present ''BBC''), a_title = Present (''z'' @ [CHR 0xC2, CHR 0xA0])\<rparr>,
      \<lparr>a_source = Present (Present ''CNN''), a_title = Present [CHR 0xE2, CHR 0x80, CHR 0x83]\<rparr>,
      \<lparr>a_source = Present (Present ''BBC''), a_title = Present ''w''\<rparr>]"

definition ex_config :: config where
  "ex_config =
     \<lparr>CHROME_DRIVER_PATH = ''chromedriver'', REMOTE_DEBUGGER_ADDRESS = ''127.0.0.1:9222'',
      CONTACTS = [''Alice'', ''Bob''], WHATSAPP_URL = ''https://web.whatsapp.com'',
      MAX_HEADLINES_PER_SOURCE = 3\<rparr>"

text \<open>A page with the search box, the chat of Alice and the message box.\<close>

definition body_node :: node where
  "body_node = \<lparr>tag = ''body'', attrs = [], in_footer = False, displayed = True, enabled = True\<rparr>"

definition search_node :: node where
  "search_node =
     \<lparr>tag = ''div'', attrs = [(''role'', ''textbox''), (''aria-label'', ''Search input textbox'')],
      in_footer = False, displayed = True, enabled = True\<rparr>"

definition alice_node :: node where
  "alice_node =
     \<lparr>tag = ''span'', attrs = [(''title'', ''Alice'')], in_footer = False, displayed = True,
      enabled = True\<rparr>"

definition input_node :: node where
  "input_node =
     \<lparr>tag = ''div'', attrs = [(''contenteditable'', ''true'')], in_footer = True,
      displayed = True, enabled = True\<rparr>"

definition ex_page :: "node list" where
  "ex_page = [body_node, search_node, alice_node, input_node]"

text \<open>A browser that shows this page at every instant and never fails.\<close>

definition ex_browser :: browser where
  "ex_browser =
     \<lparr>reachable = (\<lambda>t. True), page = (\<lambda>t. ex_page), fault = (\<lambda>t. None),
      other_xpath = (\<lambda>x doc. Inl InvalidSelectorException)\<rparr>"

text \<open>The same page behind an endpoint that is never reachable.\<close>

definition unreachable_browser :: browser where
  "unreachable_browser = ex_browser\<lparr>reachable := (\<lambda>t. False)\<rparr>"

definition w0 :: world where
  "w0 = \<lparr>now = 0, trace = [], log = []\<rparr>"

text \<open>Services that answer: five articles, a neutral score, a quote.\<close>

definition ex_services :: services where
  "ex_services =
     \<lparr>news = Reply 200 (Inr ex_articles), polarity_scores = (\<lambda>text. 0),
      zenquotes = Reply 200 (Inr (''Stay hungry'', ''Anonymous''))\<rparr>"

text \<open>The news service answers with the status 500.\<close>

definition failing_services :: services where
  "failing_services = ex_services\<lparr>news := Reply 500 (Inr [])\<rparr>"

text \<open>
  A contact name with a double quote in it, and a page on which the only chat is that of
  another contact, \<open>b\<close>.
\<close>

definition injected_name :: string where
  "injected_name = ''a'' @ [dquote] @ '' or @title='' @ [dquote] @ ''b''"

definition b_node :: node where
  "b_node =
     \<lparr>tag = ''span'', attrs = [(''title'', ''b'')], in_footer = False, displayed = True,
      enabled = True\<rparr>"

definition injected_browser :: browser where
  "injected_browser = ex_browser\<lparr>page := (\<lambda>t. [body_node, search_node, b_node, input_node])\<rparr>"

text \<open>
  A browser on whose page the chat of Alice appears at instant 11, half a second after
  the program looks for it.
\<close>

definition late_browser :: browser where
  "late_browser =
     ex_browser\<lparr>page := (\<lambda>t. if t < 11 then [body_node, search_node, input_node] else ex_page)\<rparr>"

text \<open>A browser on whose page the search box appears at instant 5.\<close>

definition slow_browser :: browser where
  "slow_browser = ex_browser\<lparr>page := (\<lambda>t. if t < 5 then [body_node] else ex_page)\<rparr>"

section \<open>Properties of the grouping\<close>

lemma drop_spaces_clean:
  "find (\<lambda>ws. ws \<noteq> [] \<and> prefix ws (drop_spaces encs s)) encs = None"
proof (induction encs s rule: drop_spaces.induct)
  case (1 encs s)
  show ?case
  proof (cases "find (\<lambda>ws. ws \<noteq> [] \<and> prefix ws s) encs")
    case None
    then show ?thesis by (simp add: drop_spaces.simps [of encs s])
  next
    case (Some ws)
    with "1.IH" [OF Some] show ?thesis by (simp add: drop_spaces.simps [of encs s])
  qed
qed

lemma drop_spaces_id:
  "find (\<lambda>ws. ws \<noteq> [] \<and> prefix ws s) encs = None \<Longrightarrow> drop_spaces encs s = s"
  by (simp add: drop_spaces.simps [of encs s])

lemma drop_spaces_suffix: "suffix (drop_spaces encs s) s"
proof (induction encs s rule: drop_spaces.induct)
  case (1 encs s)
  show ?case
  proof (cases "find (\<lambda>ws. ws \<noteq> [] \<and> prefix ws s) encs")
    case None
    then show ?thesis by (simp add: drop_spaces.simps [of encs s])
  next
    case (Some ws)
    from "1.IH" [OF Some] have "suffix (drop_spaces encs (drop (length ws) s)) s"
      using suffix_drop suffix_order.trans by blast
    with Some show ?thesis by (simp add: drop_spaces.simps [of encs s])
  qed
qed

lemma rstrip_prefix: "prefix (rstrip s) s"
  using drop_spaces_suffix [of "map rev whitespace" "rev s"]
  by (simp add: rstrip_def suffix_to_prefix)

lemma lstrip_rstrip:
  assumes "lstrip s = s"
  shows "lstrip (rstrip s) = rstrip s"
proof -
  from assms drop_spaces_clean [of whitespace s]
  have "find (\<lambda>ws. ws \<noteq> [] \<and> prefix ws s) whitespace = None"
    by (simp add: lstrip_def)
  then have "\<forall>ws\<in>set whitespace. \<not> (ws \<noteq> [] \<and> prefix ws s)"
    by (simp add: find_None_iff)
  with rstrip_prefix [of s]
  have "\<forall>ws\<in>set whitespace. \<not> (ws \<noteq> [] \<and> prefix ws (rstrip s))"
    using prefix_order.trans by blast
  then have "find (\<lambda>ws. ws \<noteq> [] \<and> prefix ws (rstrip s)) whitespace = None"
    by (simp add: find_None_iff)
  then show ?thesis
    unfolding lstrip_def by (rule drop_spaces_id)
qed

lemma strip_strip: "strip (strip s) = strip s"
proof -
  have l: "lstrip (lstrip s) = lstrip s"
    unfolding lstrip_def by (rule drop_spaces_id) (rule drop_spaces_clean)
  have r: "rstrip (rstrip t) = rstrip t" for t
    unfolding rstrip_def rev_rev_ident
    by (rule arg_cong [where f = rev], rule drop_spaces_id) (rule drop_spaces_clean)
  from lstrip_rstrip [OF l] r show ?thesis by (simp add: strip_def)
qed

lemma headline_of_cases:
  "headline_of s a = [] \<or> (\<exists>h. headline_of s a = [h] \<and> h \<noteq> [] \<and> strip h = h)"
  by (auto simp: headline_of_def article_headline_def strip_strip split: sum.splits field.splits)

lemma group_article_map:
  assumes "group_article m a g = Inr g'"
  shows "map_of g' s =
     (case map_of g s of
        None \<Rightarrow> (if headline_of s a = [] then None else Some (take (nat m) (headline_of s a)))
      | Some hs \<Rightarrow> Some (hs @ take (nat m - length hs) (headline_of s a)))"
  using assms
  by (auto simp: group_article_def headline_of_def Let_def update_conv' 
           split: sum.splits if_splits option.splits)

lemma group_article_distinct:
  "group_article m a g = Inr g' \<Longrightarrow> distinct (map fst g) \<Longrightarrow> distinct (map fst g')"
  by (auto simp: group_article_def Let_def distinct_update split: sum.splits if_splits option.splits)

lemma group_loop_map:
  "group_loop m as g = Inr g' \<Longrightarrow> map_of g' s =
     (case map_of g s of
        None \<Rightarrow> (if source_headlines s as = [] then None
                 else Some (take (nat m) (source_headlines s as)))
      | Some hs \<Rightarrow> Some (hs @ take (nat m - length hs) (source_headlines s as)))"
proof (induction as arbitrary: g)
  case Nil
  then show ?case by (simp add: source_headlines_def split: option.splits)
next
  case (Cons a as)
  from Cons.prems obtain g1 where a: "group_article m a g = Inr g1"
    and l: "group_loop m as g1 = Inr g'"
    by (auto split: sum.splits)
  have sh: "source_headlines s (a # as) = headline_of s a @ source_headlines s as"
    by (simp add: source_headlines_def)
  note ih = Cons.IH [OF l] and am = group_article_map [OF a, of s]
  from headline_of_cases [of s a] show ?case
  proof
    assume e: "headline_of s a = []"
    with am have "map_of g1 s = map_of g s"
      by (simp split: option.splits)
    with ih e sh show ?thesis by (cases "map_of g s") simp_all
  next
    assume "\<exists>h. headline_of s a = [h] \<and> h \<noteq> [] \<and> strip h = h"
    then obtain h where h: "headline_of s a = [h]" by blast
    show ?thesis
    proof (cases "map_of g s")
      case None
      with am h have "map_of g1 s = Some (take (nat m) [h])" by simp
      with ih None h sh show ?thesis
        by (cases "nat m") simp_all
    next
      case (Some hs)
      with am h have "map_of g1 s = Some (hs @ take (nat m - length hs) [h])" by simp
      then show ?thesis
      proof (cases "nat m - length hs")
        case 0
        with ih Some h sh \<open>map_of g1 s = Some (hs @ take (nat m - length hs) [h])\<close>
        show ?thesis by simp
      next
        case (Suc k)
        then have "nat m - Suc (length hs) = k" by arith
        with Suc ih Some h sh \<open>map_of g1 s = Some (hs @ take (nat m - length hs) [h])\<close>
        show ?thesis by simp
      qed
    qed
  qed
qed

lemma group_loop_distinct:
  "group_loop m as g = Inr g' \<Longrightarrow> distinct (map fst g) \<Longrightarrow> distinct (map fst g')"
  by (induction as arbitrary: g) (auto split: sum.splits dest: group_article_distinct)

lemma group_article_total:
  assumes "no_null a"
  shows "\<exists>g'. group_article m a g = Inr g'"
proof -
  from assms have "\<exists>src. article_source a = Inr src"
    by (simp add: no_null_def article_source_def split: field.splits)
  then obtain src where s: "article_source a = Inr src" ..
  from assms have "\<exists>h. article_headline a = Inr h"
    by (simp add: no_null_def article_headline_def split: field.splits)
  then obtain h where h: "article_headline a = Inr h" ..
  have "map_of (AList.update src [] g) src = Some []"
    by (simp add: update_conv')
  then show ?thesis
    unfolding group_article_def s h
    by (cases "map_of g src") (simp_all add: Let_def)
qed

lemma group_loop_total:
  "\<forall>a\<in>set as. no_null a \<Longrightarrow> \<exists>g'. group_loop m as g = Inr g'"
proof (induction as arbitrary: g)
  case Nil show ?case by simp
next
  case (Cons a as)
  then obtain g1 where "group_article m a g = Inr g1" using group_article_total [of a m g] by auto
  with Cons show ?case by auto
qed

lemma source_headlines_clean:
  "h \<in> set (source_headlines s as) \<Longrightarrow> h \<noteq> [] \<and> strip h = h"
proof -
  assume "h \<in> set (source_headlines s as)"
  then obtain a where "h \<in> set (headline_of s a)"
    by (auto simp: source_headlines_def)
  with headline_of_cases [of s a] show ?thesis by auto
qed

text \<open>
  C10 (as amended). Whenever the articles have no \<open>null\<close> source and no \<open>null\<close> title,
  \<open>group_articles_by_source\<close> returns a grouping. In every grouping it returns, each source
  occurs once; the sources listed are exactly those that have an article whose stripped
  title is not empty, and each maps to the first \<open>max_per_source\<close> headlines of that
  source, in the order of the input list. So a source has at most \<open>max_per_source\<close>
  headlines when the limit is not negative and none when it is negative, and each
  headline is non-empty and unchanged by stripping.
\<close>

theorem group_articles_by_source_grouped:
  "((\<forall>a\<in>set articles. no_null a) \<longrightarrow>
      (\<exists>g. group_articles_by_source articles max_per_source = Inr g)) \<and>
   (\<forall>g. group_articles_by_source articles max_per_source = Inr g \<longrightarrow>
      distinct (map fst g) \<and>
      (\<forall>s. map_of g s =
         (if source_headlines s articles = [] then None
          else Some (take (nat max_per_source) (source_headlines s articles)))) \<and>
      (\<forall>s hs. (s, hs) \<in> set g \<longrightarrow>
         hs = take (nat max_per_source) (source_headlines s articles) \<and>
         (0 \<le> max_per_source \<longrightarrow> int (length hs) \<le> max_per_source) \<and>
         (max_per_source < 0 \<longrightarrow> hs = []) \<and>
         (\<forall>h\<in>set hs. h \<noteq> [] \<and> strip h = h)))"
proof (intro conjI allI impI)
  assume "\<forall>a\<in>set articles. no_null a"
  then show "\<exists>g. group_articles_by_source articles max_per_source = Inr g"
    unfolding group_articles_by_source_def by (rule group_loop_total)
next
  fix g
  assume "group_articles_by_source articles max_per_source = Inr g"
  then have run: "group_loop max_per_source articles [] = Inr g"
    by (simp add: group_articles_by_source_def)
  from group_loop_distinct [OF run] show d: "distinct (map fst g)" by simp
  show m: "map_of g s =
         (if source_headlines s articles = [] then None
          else Some (take (nat max_per_source) (source_headlines s articles)))" for s
    using group_loop_map [OF run, of s] by simp
  fix s hs
  assume "(s, hs) \<in> set g"
  with d have "map_of g s = Some hs" by simp
  with m [of s]
  show eq: "hs = take (nat max_per_source) (source_headlines s articles)"
    by (simp split: if_splits)
  then show "int (length hs) \<le> max_per_source" if "0 \<le> max_per_source"
    using that by simp
  from eq show "hs = []" if "max_per_source < 0"
    using that by simp
  from eq show "\<forall>h\<in>set hs. h \<noteq> [] \<and> strip h = h"
    by (auto dest!: in_set_takeD dest: source_headlines_clean)
qed

lemma strip_simps:
  "strip '' x '' = ''x''" "strip ''y'' = ''y''" "strip [CHR ''z'', CHR 0xC2, CHR 0xA0] = ''z''"
  "strip [CHR 0xE2, CHR 0x80, CHR 0x83] = []" "strip ''w'' = ''w''" "strip ''x'' = ''x''"
  "strip ''z'' = ''z''" "strip [] = []"
  by (simp_all add: strip_def lstrip_def rstrip_def whitespace_def drop_spaces.simps)

lemma ex_run: "group_articles_by_source ex_articles 2 =
     Inr [(Some ''BBC'', [''x'', ''z'']), (Some ''Unknown Source'', [''y''])]"
  by (simp add: group_articles_by_source_def ex_articles_def group_article_def article_source_def
        article_headline_def strip_simps)

lemma ex_run_negative:
  "group_articles_by_source [\<lparr>a_source = Absent, a_title = Present ''x''\<rparr>] (- 1) =
     Inr [(Some ''Unknown Source'', [])]"
  by (simp add: group_articles_by_source_def group_article_def article_source_def
        article_headline_def strip_simps)

text \<open>
  The theorem at the six articles of the examples with the limit 2: the title with the
  no-break space is shortened, the source CNN, whose only title is an em space, is not
  listed, and the third headline of the BBC is left out.
\<close>

theorem group_articles_by_source_grouped_witness:
  "list_all no_null ex_articles \<and>
   group_articles_by_source ex_articles 2 =
     Inr [(Some ''BBC'', [''x'', ''z'']), (Some ''Unknown Source'', [''y''])] \<and>
   source_headlines (Some ''CNN'') ex_articles = [] \<and>
   [''x'', ''z''] = take (nat 2) (source_headlines (Some ''BBC'') ex_articles) \<and>
   int (length [''x'', ''z'']) \<le> 2 \<and>
   list_all (\<lambda>h. h \<noteq> [] \<and> strip h = h) [''x'', ''z'']"
proof -
  let ?g = "[(Some ''BBC'', [''x'', ''z'']), (Some ''Unknown Source'', [''y''])]"
  have n: "list_all no_null ex_articles"
    by (simp add: ex_articles_def no_null_def)
  have m: "(Some ''BBC'', [''x'', ''z'']) \<in> set ?g"
    by simp
  from group_articles_by_source_grouped [of ex_articles 2] ex_run
  have all: "\<forall>s. map_of ?g s =
         (if source_headlines s ex_articles = [] then None
          else Some (take (nat 2) (source_headlines s ex_articles)))"
    and each: "\<forall>s hs. (s, hs) \<in> set ?g \<longrightarrow>
         hs = take (nat 2) (source_headlines s ex_articles) \<and>
         (0 \<le> (2::int) \<longrightarrow> int (length hs) \<le> 2) \<and>
         ((2::int) < 0 \<longrightarrow> hs = []) \<and>
         (\<forall>h\<in>set hs. h \<noteq> [] \<and> strip h = h)"
    by blast+
  from all [rule_format, of "Some ''CNN''"]
  have cnn: "source_headlines (Some ''CNN'') ex_articles = []"
    by (simp split: if_splits)
  from each m
  have a: "[''x'', ''z''] = take (nat 2) (source_headlines (Some ''BBC'') ex_articles)"
    and b0: "0 \<le> (2::int) \<longrightarrow> int (length [''x'', ''z'']) \<le> 2"
    and c: "\<forall>h\<in>set [''x'', ''z'']. h \<noteq> [] \<and> strip h = h"
    by blast+
  from b0 have b: "int (length [''x'', ''z'']) \<le> 2" by simp
  from c have c': "list_all (\<lambda>h. h \<noteq> [] \<and> strip h = h) [''x'', ''z'']"
    unfolding list_all_iff .
  from n ex_run cnn a b c' show ?thesis by blast
qed

text \<open>
  C10 as stated fails at two inputs. With a negative limit the source of a titled
  article is listed with no headline, and zero is more than the limit. With a title that
  is \<open>null\<close> the article is not skipped: the function raises and returns no grouping.
\<close>

theorem group_articles_by_source_fails_as_stated:
  "group_articles_by_source [\<lparr>a_source = Absent, a_title = Present ''x''\<rparr>] (- 1) =
     Inr [(Some ''Unknown Source'', [])] \<and>
   \<not> int (length ([] :: string list)) \<le> - 1 \<and>
   group_articles_by_source [\<lparr>a_source = Absent, a_title = Null\<rparr>] 3 = Inl AttributeError"
  by (simp add: group_articles_by_source_def group_article_def article_source_def
        article_headline_def strip_simps)

section \<open>Runs follow the script\<close>

lemma follows_ret: "follows (ret x) [] [] []"
  by (simp add: follows_def ret_def)

lemma follows_logging: "follows (logging ev) [] [] [ev]"
  by (simp add: follows_def logging_def)

lemma follows_sleep: "follows (sleep n) [] [] []"
  by (simp add: follows_def sleep_def)

lemma typed_append: "typed (xs @ ys) = typed xs @ typed ys"
  by (induction xs rule: typed.induct) simp_all

lemma typed_single: "typed [Entry s c r] = typed [Entry s c None]"
  by (cases s; cases c) simp_all

lemma follows_driver_call: "follows (driver_call b s c a) [s] (typed [Entry s c None]) []"
  by (auto simp: follows_def driver_call_def Let_def outcome_def typed_single [of s c "Some e" for e]
      split: option.splits sum.splits)

lemma follows_call_other:
  "s \<noteq> ComposeSend \<Longrightarrow> follows (driver_call b s c a) [s] [] []"
  using follows_driver_call [of b s c a] by (cases s) simp_all

lemma follows_call_compose:
  "follows (driver_call b ComposeSend (SendKeys n k) a) [ComposeSend] [k] []"
  using follows_driver_call [of b ComposeSend "SendKeys n k" a] by simp

lemma follows_wait_until: "follows (wait_until b s n c) [s] [] []"
  by (auto simp: follows_def wait_until_def outcome_def split: prod.splits sum.splits)

lemma follows_seq:
  assumes m: "follows m ss1 ks1 evs1" and f: "\<And>x. follows (f x) ss2 ks2 evs2"
  shows "follows (seq m f) (ss1 @ ss2) (ks1 @ ks2) (evs1 @ evs2)"
  unfolding follows_def
proof
  fix w :: world
  from m obtain new1 lg1 where t1: "trace (snd (m w)) = trace w @ new1"
    and l1: "log (snd (m w)) = log w @ lg1"
    and c1: "case fst (m w) of
           Inr x \<Rightarrow> map step_of new1 = ss1 \<and> list_all (\<lambda>c. raised c = None) new1 \<and>
                    typed new1 = ks1 \<and> lg1 = evs1
         | Inl e \<Rightarrow>
             (\<exists>pre c. new1 = pre @ [c] \<and> list_all (\<lambda>c. raised c = None) pre \<and>
                      raised c = Some e) \<and>
             prefix (map step_of new1) ss1 \<and> prefix (typed new1) ks1 \<and> prefix lg1 evs1"
    unfolding follows_def by blast
  show "\<exists>new lg.
        trace (snd (seq m f w)) = trace w @ new \<and> log (snd (seq m f w)) = log w @ lg \<and>
        (case fst (seq m f w) of
           Inr x \<Rightarrow> map step_of new = ss1 @ ss2 \<and> list_all (\<lambda>c. raised c = None) new \<and>
                    typed new = ks1 @ ks2 \<and> lg = evs1 @ evs2
         | Inl e \<Rightarrow>
             (\<exists>pre c. new = pre @ [c] \<and> list_all (\<lambda>c. raised c = None) pre \<and>
                      raised c = Some e) \<and>
             prefix (map step_of new) (ss1 @ ss2) \<and> prefix (typed new) (ks1 @ ks2) \<and>
             prefix lg (evs1 @ evs2))"
  proof (cases "fst (m w)")
    case (Inl e)
    then have "seq m f w = (Inl e, snd (m w))"
      by (cases "m w") (simp add: seq_def)
    with t1 l1 c1 Inl show ?thesis
      by (intro exI [of _ new1] exI [of _ lg1]) (auto simp: prefix_def)
  next
    case (Inr x)
    then have s: "seq m f w = f x (snd (m w))"
      by (cases "m w") (simp add: seq_def)
    from f [of x] obtain new2 lg2
      where t2: "trace (snd (f x (snd (m w)))) = trace (snd (m w)) @ new2"
      and l2: "log (snd (f x (snd (m w)))) = log (snd (m w)) @ lg2"
      and c2: "case fst (f x (snd (m w))) of
           Inr y \<Rightarrow> map step_of new2 = ss2 \<and> list_all (\<lambda>c. raised c = None) new2 \<and>
                    typed new2 = ks2 \<and> lg2 = evs2
         | Inl e \<Rightarrow>
             (\<exists>pre c. new2 = pre @ [c] \<and> list_all (\<lambda>c. raised c = None) pre \<and>
                      raised c = Some e) \<and>
             prefix (map step_of new2) ss2 \<and> prefix (typed new2) ks2 \<and> prefix lg2 evs2"
      unfolding follows_def by blast
    from c1 Inr have ok1: "map step_of new1 = ss1" "list_all (\<lambda>c. raised c = None) new1"
      "typed new1 = ks1" "lg1 = evs1"
      by simp_all
    show ?thesis
    proof (cases "fst (f x (snd (m w)))")
      case (Inr y)
      with c2 ok1 t1 t2 l1 l2 s show ?thesis
        by (intro exI [of _ "new1 @ new2"] exI [of _ "lg1 @ lg2"]) (simp add: typed_append)
    next
      case (Inl e)
      with c2 obtain pre c where p: "new2 = pre @ [c]" "list_all (\<lambda>c. raised c = None) pre"
        "raised c = Some e"
        and pf: "prefix (map step_of new2) ss2" "prefix (typed new2) ks2" "prefix lg2 evs2"
        by auto
      from p ok1 have "new1 @ new2 = (new1 @ pre) @ [c] \<and>
          list_all (\<lambda>c. raised c = None) (new1 @ pre) \<and> raised c = Some e"
        by simp
      then have "\<exists>pre' c'. new1 @ new2 = pre' @ [c'] \<and>
          list_all (\<lambda>c. raised c = None) pre' \<and> raised c' = Some e"
        by blast
      with Inl ok1 pf t1 t2 l1 l2 s show ?thesis
        by (intro exI [of _ "new1 @ new2"] exI [of _ "lg1 @ lg2"]) (simp add: typed_append)
    qed
  qed
qed

lemma follows_type_lines:
  "follows (type_lines b box lines)
     (concat (map (\<lambda>line. [ComposeSend, ComposeSend]) lines))
     (concat (map (\<lambda>line. [Text line, SHIFT_ENTER]) lines)) []"
proof (induction lines)
  case Nil
  show ?case by (simp add: follows_ret)
next
  case (Cons line lines)
  have "follows (type_lines b box (line # lines))
          ([ComposeSend] @ [ComposeSend] @
             concat (map (\<lambda>line. [ComposeSend, ComposeSend]) lines))
          ([Text line] @ [SHIFT_ENTER] @
             concat (map (\<lambda>line. [Text line, SHIFT_ENTER]) lines))
          ([] @ [] @ [])"
    unfolding type_lines.simps send_keys_def
    by (intro follows_seq follows_call_compose Cons.IH)
  then show ?case by simp
qed

lemma follows_send_body:
  "follows (send_body b cfg contact_name message) (step_script message) (message_keys message)
     [WhatsAppLoaded, MessageSent contact_name]"
proof -
  have "follows (send_body b cfg contact_name message)
     ([Attach] @ [Navigate] @ [AwaitReady] @ [] @ [LocateSearch] @ [LocateSearch] @
      [TypeQuery] @ [] @ [SelectContact] @ [SelectContact] @ [] @ [LocateInput] @
      concat (map (\<lambda>line. [ComposeSend, ComposeSend]) (split_lines message)) @
      [ComposeSend] @ [] @ [] @ [Release])
     ([] @ [] @ [] @ [] @ [] @ [] @ [] @ [] @ [] @ [] @ [] @ [] @
      concat (map (\<lambda>line. [Text line, SHIFT_ENTER]) (split_lines message)) @
      [ENTER] @ [] @ [] @ [])
     ([] @ [] @ [] @ [WhatsAppLoaded] @ [] @ [] @ [] @ [] @ [] @ [] @ [] @ [] @ [] @ [] @
      [MessageSent contact_name] @ [] @ [])"
    unfolding send_body_def webdriver_Chrome_def driver_get_def click_def send_keys_def
      find_element_def driver_quit_def
    by (intro follows_seq follows_call_compose follows_call_other follows_wait_until
          follows_logging follows_sleep follows_type_lines) simp_all
  then show ?thesis by (simp add: step_script_def message_keys_def)
qed

section \<open>One contact's sequence\<close>

lemma attempted_append: "attempted (xs @ ys) = attempted xs @ attempted ys"
  by (induction xs rule: attempted.induct) simp_all

lemma delivered_append: "delivered (xs @ ys) = delivered xs @ delivered ys"
  by (induction xs rule: delivered.induct) simp_all

lemma failures_append: "failures (xs @ ys) = failures xs @ failures ys"
  by (induction xs rule: failures.induct) simp_all

lemma raised_in_append: "raised_in (xs @ ys) = raised_in xs @ raised_in ys"
  by (induction xs) (simp_all split: option.splits)

lemma raised_in_none: "list_all (\<lambda>c. raised c = None) xs \<Longrightarrow> raised_in xs = []"
  by (induction xs) simp_all

lemma prefix_two:
  "prefix lg [x, y] \<Longrightarrow> lg = [] \<or> lg = [x] \<or> lg = [x, y]"
  by (cases lg; cases "tl lg") (auto simp: prefix_Cons)

lemma send_whatsapp_message_run:
  "\<exists>new lg tail.
     fst (send_whatsapp_message b cfg contact_name message w) = Inr () \<and>
     trace (snd (send_whatsapp_message b cfg contact_name message w)) = trace w @ new \<and>
     log (snd (send_whatsapp_message b cfg contact_name message w)) =
       log w @ [Sending contact_name] @ lg @ tail \<and>
     new \<noteq> [] \<and>
     prefix (map step_of new) (step_script message) \<and>
     prefix (typed new) (message_keys message) \<and>
     prefix lg [WhatsAppLoaded, MessageSent contact_name] \<and>
     list_all (\<lambda>c. raised c = None) (butlast new) \<and>
     (case raised (last new) of
        None \<Rightarrow> map step_of new = step_script message \<and> typed new = message_keys message \<and>
                lg = [WhatsAppLoaded, MessageSent contact_name] \<and> tail = []
      | Some e \<Rightarrow> tail = [ErrorSending contact_name e])"
proof -
  define w1 where "w1 = w\<lparr>log := log w @ [Sending contact_name]\<rparr>"
  define body where "body = send_body b cfg contact_name message"
  have run: "send_whatsapp_message b cfg contact_name message w =
      (case body w1 of
         (Inl e, w') \<Rightarrow> (Inr (), w'\<lparr>log := log w' @ [ErrorSending contact_name e]\<rparr>)
       | (Inr x, w') \<Rightarrow> (Inr x, w'))"
    by (simp add: send_whatsapp_message_def seq_def logging_def try_except_def w1_def body_def
          split: prod.splits sum.splits)
  from follows_send_body [of b cfg contact_name message]
  obtain new lg where t: "trace (snd (body w1)) = trace w1 @ new"
    and l: "log (snd (body w1)) = log w1 @ lg"
    and c: "case fst (body w1) of
           Inr x \<Rightarrow>
             map step_of new = step_script message \<and> list_all (\<lambda>c. raised c = None) new \<and>
             typed new = message_keys message \<and> lg = [WhatsAppLoaded, MessageSent contact_name]
         | Inl e \<Rightarrow>
             (\<exists>pre c. new = pre @ [c] \<and> list_all (\<lambda>c. raised c = None) pre \<and>
                      raised c = Some e) \<and>
             prefix (map step_of new) (step_script message) \<and>
             prefix (typed new) (message_keys message) \<and>
             prefix lg [WhatsAppLoaded, MessageSent contact_name]"
    unfolding follows_def body_def by blast
  show ?thesis
  proof (cases "fst (body w1)")
    case (Inr x)
    with c have ok: "map step_of new = step_script message" "list_all (\<lambda>c. raised c = None) new"
      "typed new = message_keys message" "lg = [WhatsAppLoaded, MessageSent contact_name]"
      by simp_all
    from ok(1) have ne: "new \<noteq> []" by (auto simp: step_script_def)
    with ok(2) have "raised (last new) = None" "list_all (\<lambda>c. raised c = None) (butlast new)"
      by (auto simp: list_all_iff dest: in_set_butlastD)
    with Inr ok ne t l run show ?thesis
      by (intro exI [of _ new] exI [of _ lg] exI [of _ "[]"])
         (cases "body w1", simp add: w1_def)
  next
    case (Inl e)
    with c obtain pre x where p: "new = pre @ [x]" "list_all (\<lambda>c. raised c = None) pre"
      "raised x = Some e"
      and pf: "prefix (map step_of new) (step_script message)"
      "prefix (typed new) (message_keys message)"
      "prefix lg [WhatsAppLoaded, MessageSent contact_name]"
      by auto
    with Inl t l run show ?thesis
      by (intro exI [of _ new] exI [of _ lg] exI [of _ "[ErrorSending contact_name e]"])
         (cases "body w1", simp add: w1_def)
  qed
qed

lemma attach_once:
  assumes "prefix ss (step_script message)" and "ss \<noteq> []"
  shows "length (filter (\<lambda>s. s = Attach) ss) = 1"
proof -
  from assms obtain ss' where ss: "ss = Attach # ss'"
    and p: "prefix ss' (tl (step_script message))"
    by (cases ss) (auto simp: step_script_def)
  have "Attach \<notin> set (tl (step_script message))"
    by (auto simp: step_script_def)
  with p have "Attach \<notin> set ss'"
    by (auto dest: set_mono_prefix)
  then have "filter (\<lambda>s. s = Attach) ss' = []"
    by (auto simp: filter_empty_conv)
  with ss show ?thesis by simp
qed

text \<open>One contact's sequence, read off the added calls and log records.\<close>

lemma send_whatsapp_message_summary:
  fixes b :: browser and cfg :: config and contact_name message :: string and w :: world
  defines "w' \<equiv> snd (send_whatsapp_message b cfg contact_name message w)"
  shows "fst (send_whatsapp_message b cfg contact_name message w) = Inr ()"
    and "trace w' = trace w @ added_calls w w'"
    and "log w' = log w @ added_log w w'"
    and "added_calls w w' \<noteq> []"
    and "prefix (map step_of (added_calls w w')) (step_script message)"
    and "prefix (typed (added_calls w w')) (message_keys message)"
    and "list_all (\<lambda>c. raised c = None) (butlast (added_calls w w'))"
    and "attempted (added_log w w') = [contact_name]"
    and "raised (last (added_calls w w')) = None \<Longrightarrow>
           map step_of (added_calls w w') = step_script message \<and>
           typed (added_calls w w') = message_keys message \<and>
           added_log w w' = [Sending contact_name, WhatsAppLoaded, MessageSent contact_name]"
    and "raised (last (added_calls w w')) = Some e \<Longrightarrow>
           failures (added_log w w') = [(contact_name, e)] \<and>
           last (added_log w w') = ErrorSending contact_name e"
    and "raised_in (added_calls w w') = map snd (failures (added_log w w'))"
    and "failures (added_log w w') = [] \<or>
         (\<exists>e. failures (added_log w w') = [(contact_name, e)])"
    and "delivered (added_log w w') = [] \<or> delivered (added_log w w') = [contact_name]"
    and "length (filter (\<lambda>c. step_of c = Attach) (added_calls w w')) = 1"
proof -
  from send_whatsapp_message_run [of b cfg contact_name message w]
  obtain new lg tail where r: "fst (send_whatsapp_message b cfg contact_name message w) = Inr ()"
    and t: "trace w' = trace w @ new"
    and l: "log w' = log w @ [Sending contact_name] @ lg @ tail"
    and ne: "new \<noteq> []"
    and ps: "prefix (map step_of new) (step_script message)"
    and pk: "prefix (typed new) (message_keys message)"
    and pl: "prefix lg [WhatsAppLoaded, MessageSent contact_name]"
    and ok: "list_all (\<lambda>c. raised c = None) (butlast new)"
    and c: "case raised (last new) of
        None \<Rightarrow> map step_of new = step_script message \<and> typed new = message_keys message \<and>
                lg = [WhatsAppLoaded, MessageSent contact_name] \<and> tail = []
      | Some e \<Rightarrow> tail = [ErrorSending contact_name e]"
    unfolding w'_def by blast
  have ac: "added_calls w w' = new" by (simp add: added_calls_def t)
  have al: "added_log w w' = [Sending contact_name] @ lg @ tail" by (simp add: added_log_def l)
  from prefix_two [OF pl] have lg: "attempted lg = [] \<and> failures lg = [] \<and>
      (delivered lg = [] \<or> delivered lg = [contact_name])"
    by auto
  from ne have sp: "new = butlast new @ [last new]" by simp
  have ri: "raised_in new = raised_in [last new]"
    using raised_in_append [of "butlast new" "[last new]"] raised_in_none [OF ok] sp by simp
  show "fst (send_whatsapp_message b cfg contact_name message w) = Inr ()" by (rule r)
  show "trace w' = trace w @ added_calls w w'" by (simp add: ac t)
  show "log w' = log w @ added_log w w'" by (simp add: al l)
  show "added_calls w w' \<noteq> []" by (simp add: ac ne)
  show "prefix (map step_of (added_calls w w')) (step_script message)" by (simp add: ac ps)
  show "prefix (typed (added_calls w w')) (message_keys message)" by (simp add: ac pk)
  show "list_all (\<lambda>c. raised c = None) (butlast (added_calls w w'))" by (simp add: ac ok)
  show "attempted (added_log w w') = [contact_name]"
    using c lg by (cases "raised (last new)") (simp_all add: al attempted_append)
  show "raised (last (added_calls w w')) = None \<Longrightarrow>
           map step_of (added_calls w w') = step_script message \<and>
           typed (added_calls w w') = message_keys message \<and>
           added_log w w' = [Sending contact_name, WhatsAppLoaded, MessageSent contact_name]"
    using c by (simp add: ac al)
  show "raised (last (added_calls w w')) = Some e \<Longrightarrow>
           failures (added_log w w') = [(contact_name, e)] \<and>
           last (added_log w w') = ErrorSending contact_name e"
    using c lg by (simp add: ac al failures_append)
  show "raised_in (added_calls w w') = map snd (failures (added_log w w'))"
    using c lg ri by (cases "raised (last new)") (simp_all add: ac al failures_append)
  show "failures (added_log w w') = [] \<or>
         (\<exists>e. failures (added_log w w') = [(contact_name, e)])"
    using c lg by (cases "raised (last new)") (simp_all add: al failures_append)
  show "delivered (added_log w w') = [] \<or> delivered (added_log w w') = [contact_name]"
    using c lg by (cases "raised (last new)") (auto simp: al delivered_append)
  have "length (filter (\<lambda>s. s = Attach) (map step_of new)) = 1"
    using ps ne by (intro attach_once [of _ message]) simp_all
  then show "length (filter (\<lambda>c. step_of c = Attach) (added_calls w w')) = 1"
    by (simp add: ac filter_map comp_def)
qed

section \<open>Evaluating the example browser\<close>

lemma title_list_plain:
  "dquote \<notin> set name \<Longrightarrow> title_list lit (name @ [dquote] @ '']'') = Some [lit @ name]"
  by (induction name arbitrary: lit) auto

lemma span_titles_plain:
  "dquote \<notin> set name \<Longrightarrow> span_titles (contact_xpath name) = Some [name]"
  using title_list_plain [of name "[]"]
  by (simp add: span_titles_def contact_xpath_def Let_def)

lemma contact_xpath_other:
  "contact_xpath name \<noteq> search_box_xpath" "contact_xpath name \<noteq> message_box_xpath"
  by (simp_all add: contact_xpath_def search_box_xpath_def message_box_xpath_def)

lemma xpath_nodes_contact:
  "dquote \<notin> set name \<Longrightarrow>
   xpath_nodes b (contact_xpath name) doc =
     Inr (filter (\<lambda>n. tag n = ''span'' \<and> attr n ''title'' = Some name) doc)"
  by (auto simp: xpath_nodes_def contact_xpath_other span_titles_plain
           intro!: filter_cong split: option.splits)

lemma until_poll_first:
  "fault b t = None \<Longrightarrow> check b c (page b t) = Inr (Some n) \<Longrightarrow>
   until_poll b c (polls k) t = (Inr n, Suc t)"
  by (simp add: polls_def)

lemma ex_checks:
  "check ex_browser (presence_of_element_located (ByTagName ''body'')) ex_page = Inr (Some body_node)"
  "check ex_browser (presence_of_element_located (ByXPath search_box_xpath)) ex_page = Inr (Some search_node)"
  "check ex_browser (element_to_be_clickable (ByXPath message_box_xpath)) ex_page = Inr (Some input_node)"
  by (simp_all add: check_def locate_def find_elements_def
        xpath_nodes_def ex_page_def body_node_def search_node_def alice_node_def input_node_def
        attr_def search_box_xpath_def message_box_xpath_def)

lemma ex_contacts:
  "locate ex_browser (ByXPath (contact_xpath ''Alice'')) ex_page = Inr alice_node"
  "locate ex_browser (ByXPath (contact_xpath ''Bob'')) ex_page = Inl NoSuchElementException"
  by (simp_all add: locate_def find_elements_def xpath_nodes_contact dquote_def
        ex_page_def body_node_def search_node_def alice_node_def input_node_def attr_def)

lemma ex_browser_simps:
  "reachable ex_browser t" "page ex_browser t = ex_page" "fault ex_browser t = None"
  by (simp_all add: ex_browser_def)

lemmas run_defs =
  send_whatsapp_message_def send_body_def seq_def ret_def try_except_def
  logging_def sleep_def driver_call_def wait_until_def webdriver_Chrome_def driver_get_def
  click_def send_keys_def find_element_def driver_quit_def outcome_def Let_def

lemma ex_split: "split_lines ''Hello\<newline>World'' = [''Hello'', ''World'']"
  by simp

section \<open>The loop over the contacts and the order of the steps\<close>

lemma send_to_contacts_run:
  "\<exists>new lg.
     fst (send_to_contacts b cfg contacts message w) = Inr () \<and>
     trace (snd (send_to_contacts b cfg contacts message w)) = trace w @ new \<and>
     log (snd (send_to_contacts b cfg contacts message w)) = log w @ lg \<and>
     attempted lg = contacts \<and>
     raised_in new = map snd (failures lg) \<and>
     subseq (map fst (failures lg)) contacts \<and>
     subseq (delivered lg) contacts \<and>
     length (filter (\<lambda>c. step_of c = Attach) new) = length contacts"
proof (induction contacts arbitrary: w)
  case Nil
  show ?case by (simp add: ret_def)
next
  case (Cons c cs)
  define w1 where "w1 = snd (send_whatsapp_message b cfg c message w)"
  note s = send_whatsapp_message_summary
    [where b = b and cfg = cfg and contact_name = c and message = message and w = w,
     folded w1_def]
  from s(1) have run: "send_to_contacts b cfg (c # cs) message w = send_to_contacts b cfg cs message w1"
    by (cases "send_whatsapp_message b cfg c message w") (simp add: seq_def w1_def)
  from Cons.IH [of w1] obtain new2 lg2
    where r: "fst (send_to_contacts b cfg cs message w1) = Inr ()"
    and t: "trace (snd (send_to_contacts b cfg cs message w1)) = trace w1 @ new2"
    and l: "log (snd (send_to_contacts b cfg cs message w1)) = log w1 @ lg2"
    and a: "attempted lg2 = cs"
    and e: "raised_in new2 = map snd (failures lg2)"
    and f: "subseq (map fst (failures lg2)) cs"
    and d: "subseq (delivered lg2) cs"
    and n: "length (filter (\<lambda>c. step_of c = Attach) new2) = length cs"
    by blast
  let ?new = "added_calls w w1 @ new2" and ?lg = "added_log w w1 @ lg2"
  have "subseq (map fst (failures ?lg)) (c # cs)"
    using s(12) f by (auto simp: failures_append)
  moreover have "subseq (delivered ?lg) (c # cs)"
    using s(13) d by (auto simp: delivered_append)
  moreover have "attempted ?lg = c # cs"
    using s(8) a by (simp add: attempted_append)
  moreover have "raised_in ?new = map snd (failures ?lg)"
    using s(11) e by (simp add: raised_in_append failures_append)
  moreover have "length (filter (\<lambda>c. step_of c = Attach) ?new) = length (c # cs)"
    using s(14) n by simp
  moreover have "trace (snd (send_to_contacts b cfg (c # cs) message w)) = trace w @ ?new"
    using run t s(2) by simp
  moreover have "log (snd (send_to_contacts b cfg (c # cs) message w)) = log w @ ?lg"
    using run l s(3) by simp
  moreover have "fst (send_to_contacts b cfg (c # cs) message w) = Inr ()"
    using run r by simp
  ultimately show ?case by blast
qed

text \<open>
  C2. For every contact list, from every world and with every browser, the loop over the
  contacts returns without an exception, the sequences started are those of the contacts
  of the list, each once and in the order of the list, the driver is attached to as many
  times as the list is long, and every exception a call raised is the cause of a failure
  written to the log under a contact of the list, in order.
\<close>

theorem send_to_contacts_attempts_every_contact:
  "let r = send_to_contacts b cfg contacts message w;
       new = added_calls w (snd r);
       lg = added_log w (snd r)
   in fst r = Inr () \<and>
      attempted lg = contacts \<and>
      length (filter (\<lambda>c. step_of c = Attach) new) = length contacts \<and>
      raised_in new = map snd (failures lg) \<and>
      subseq (map fst (failures lg)) contacts"
proof -
  from send_to_contacts_run [of b cfg contacts message w] obtain new lg
    where "fst (send_to_contacts b cfg contacts message w) = Inr ()"
    and "trace (snd (send_to_contacts b cfg contacts message w)) = trace w @ new"
    and "log (snd (send_to_contacts b cfg contacts message w)) = log w @ lg"
    and "attempted lg = contacts"
    and "raised_in new = map snd (failures lg)"
    and "subseq (map fst (failures lg)) contacts"
    and "length (filter (\<lambda>c. step_of c = Attach) new) = length contacts"
    by blast
  then show ?thesis
    by (simp add: Let_def added_calls_def added_log_def)
qed

text \<open>
  The theorem at the contacts Alice, who is on the page, and Bob, who is not: both are
  attempted, the message is sent to Alice and the failure of Bob is logged.
\<close>

theorem send_to_contacts_attempts_every_contact_witness:
  "fst (send_to_contacts ex_browser ex_config [''Alice'', ''Bob''] ''Hello\<newline>World'' w0) = Inr () \<and>
   attempted (added_log w0
     (snd (send_to_contacts ex_browser ex_config [''Alice'', ''Bob''] ''Hello\<newline>World'' w0))) =
     [''Alice'', ''Bob''] \<and>
   delivered (added_log w0
     (snd (send_to_contacts ex_browser ex_config [''Alice'', ''Bob''] ''Hello\<newline>World'' w0))) =
     [''Alice''] \<and>
   failures (added_log w0
     (snd (send_to_contacts ex_browser ex_config [''Alice'', ''Bob''] ''Hello\<newline>World'' w0))) =
     [(''Bob'', NoSuchElementException)]"
proof -
  have "delivered (added_log w0
     (snd (send_to_contacts ex_browser ex_config [''Alice'', ''Bob''] ''Hello\<newline>World'' w0))) =
     [''Alice'']"
    and "failures (added_log w0
     (snd (send_to_contacts ex_browser ex_config [''Alice'', ''Bob''] ''Hello\<newline>World'' w0))) =
     [(''Bob'', NoSuchElementException)]"
    by (simp_all add: run_defs ex_browser_simps until_poll_first ex_checks ex_contacts w0_def
          ex_split added_log_def)
  with send_to_contacts_attempts_every_contact
    [where b = ex_browser and cfg = ex_config and contacts = "[''Alice'', ''Bob'']"
       and message = "''Hello\<newline>World''" and w = w0]
  show ?thesis by (simp add: Let_def)
qed

lemma remdups_adj_compose:
  "remdups_adj (ComposeSend # concat (map (\<lambda>line. [ComposeSend, ComposeSend]) lines) @
      [ComposeSend, Release]) = [ComposeSend, Release]"
  by (induction lines) simp_all

lemma split_lines_nonempty: "split_lines s \<noteq> []"
  by (induction s) simp_all

lemma step_script_order:
  "remdups_adj (step_script message) =
     [Attach, Navigate, AwaitReady, LocateSearch, TypeQuery, SelectContact, LocateInput,
      ComposeSend, Release]"
proof -
  obtain l ls where "split_lines message = l # ls"
    using split_lines_nonempty [of message] by (cases "split_lines message") auto
  then show ?thesis
    using remdups_adj_compose [of ls] by (simp add: step_script_def)
qed

text \<open>
  C4. The calls of one contact's sequence are those of a prefix of the script, whose
  steps are attach, navigate, await-ready, locate-search, type-query, select-contact,
  locate-input, compose-and-send and release, in this order, each in one block. No call
  but the last one raised. When the last call raised, the failure is logged with the
  contact and the cause, and no call follows it; when it did not, the whole script was
  run and the message is reported sent.
\<close>

theorem send_whatsapp_message_steps_in_order:
  "let w' = snd (send_whatsapp_message b cfg contact_name message w);
       new = added_calls w w';
       lg = added_log w w'
   in trace w' = trace w @ new \<and> new \<noteq> [] \<and>
      prefix (map step_of new) (step_script message) \<and>
      remdups_adj (step_script message) =
        [Attach, Navigate, AwaitReady, LocateSearch, TypeQuery, SelectContact, LocateInput,
         ComposeSend, Release] \<and>
      list_all (\<lambda>c. raised c = None) (butlast new) \<and>
      (case raised (last new) of
         None \<Rightarrow> map step_of new = step_script message \<and> failures lg = [] \<and>
                 delivered lg = [contact_name]
       | Some e \<Rightarrow> failures lg = [(contact_name, e)] \<and>
                   last lg = ErrorSending contact_name e)"
proof -
  note s = send_whatsapp_message_summary
    [where b = b and cfg = cfg and contact_name = contact_name and message = message and w = w]
  have "case raised (last (added_calls w (snd (send_whatsapp_message b cfg contact_name message w)))) of
         None \<Rightarrow> map step_of (added_calls w (snd (send_whatsapp_message b cfg contact_name message w))) = step_script message \<and>
                 failures (added_log w (snd (send_whatsapp_message b cfg contact_name message w))) = [] \<and>
                 delivered (added_log w (snd (send_whatsapp_message b cfg contact_name message w))) = [contact_name]
       | Some e \<Rightarrow> failures (added_log w (snd (send_whatsapp_message b cfg contact_name message w))) = [(contact_name, e)] \<and>
                   last (added_log w (snd (send_whatsapp_message b cfg contact_name message w))) = ErrorSending contact_name e"
    using s(9) s(10) by (auto split: option.splits)
  with s(2) s(4) s(5) s(7) step_script_order [of message] show ?thesis
    by (simp add: Let_def)
qed

text \<open>The theorem at a contact that is not on the page: the sequence ends at the lookup.\<close>

theorem send_whatsapp_message_steps_in_order_witness:
  "map step_of (added_calls w0 (snd (send_whatsapp_message ex_browser ex_config ''Bob'' ''Hello'' w0))) =
     [Attach, Navigate, AwaitReady, LocateSearch, LocateSearch, TypeQuery, SelectContact] \<and>
   prefix [Attach, Navigate, AwaitReady, LocateSearch, LocateSearch, TypeQuery, SelectContact]
     (step_script ''Hello'') \<and>
   raised (last (added_calls w0
     (snd (send_whatsapp_message ex_browser ex_config ''Bob'' ''Hello'' w0)))) =
     Some NoSuchElementException \<and>
   failures (added_log w0 (snd (send_whatsapp_message ex_browser ex_config ''Bob'' ''Hello'' w0))) =
     [(''Bob'', NoSuchElementException)]"
proof -
  have "map step_of (added_calls w0
      (snd (send_whatsapp_message ex_browser ex_config ''Bob'' ''Hello'' w0))) =
     [Attach, Navigate, AwaitReady, LocateSearch, LocateSearch, TypeQuery, SelectContact]"
    and "raised (last (added_calls w0
      (snd (send_whatsapp_message ex_browser ex_config ''Bob'' ''Hello'' w0)))) =
     Some NoSuchElementException"
    by (simp_all add: run_defs ex_browser_simps until_poll_first ex_checks ex_contacts w0_def
          added_calls_def)
  with send_whatsapp_message_steps_in_order
    [where b = ex_browser and cfg = ex_config and contact_name = "''Bob''"
       and message = "''Hello''" and w = w0]
  show ?thesis by (simp add: Let_def)
qed

section \<open>The keys of a message\<close>

lemma count_keys:
  "length (filter is_text (concat (map (\<lambda>line. [Text line, SHIFT_ENTER]) lines))) = length lines"
  "length (filter (\<lambda>k. k = SHIFT_ENTER) (concat (map (\<lambda>line. [Text line, SHIFT_ENTER]) lines))) = length lines"
  "filter (\<lambda>k. k = ENTER) (concat (map (\<lambda>line. [Text line, SHIFT_ENTER]) lines)) = []"
  by (induction lines) (simp_all add: is_text_def)

lemma split_lines_length: "length (split_lines s) = Suc (length (filter (\<lambda>c. c = CHR 0x0A) s))"
  by (induction s) (simp_all add: split_lines_nonempty)

text \<open>
  C1 (as amended). A message of \<open>N\<close> lines has \<open>N - 1\<close> line feeds, \<open>N \<ge> 1\<close>. The keys
  typed into the message box in one contact's sequence are a prefix of the keys of the
  message, and all of them when no call raised. The keys of the message are \<open>N\<close> texts
  and \<open>N\<close> line breaks, one after every line, the last one included, and then one
  ENTER, which is the last key: the message is submitted once, as one unit.
\<close>

theorem message_typed_as_one_unit:
  "let N = length (split_lines message);
       new = added_calls w (snd (send_whatsapp_message b cfg contact_name message w));
       ks = message_keys message
   in N = Suc (length (filter (\<lambda>c. c = CHR 0x0A) message)) \<and>
      prefix (typed new) ks \<and>
      (raised (last new) = None \<longrightarrow> typed new = ks) \<and>
      length (filter is_text ks) = N \<and>
      length (filter (\<lambda>k. k = SHIFT_ENTER) ks) = N \<and>
      length (filter (\<lambda>k. k = ENTER) ks) = 1 \<and>
      last ks = ENTER"
proof -
  note s = send_whatsapp_message_summary
    [where b = b and cfg = cfg and contact_name = contact_name and message = message and w = w]
  from s(6) s(9) show ?thesis
    by (simp add: Let_def message_keys_def count_keys split_lines_length is_text_def)
qed

lemma ex_split2: "split_lines ''A\<newline>B\<newline>C'' = [''A'', ''B'', ''C'']"
  by simp

text \<open>The theorem at a message of two lines, sent to a contact that is found.\<close>

theorem message_typed_as_one_unit_witness:
  "raised (last (added_calls w0
      (snd (send_whatsapp_message ex_browser ex_config ''Alice'' ''Hello\<newline>World'' w0)))) = None \<and>
   typed (added_calls w0
      (snd (send_whatsapp_message ex_browser ex_config ''Alice'' ''Hello\<newline>World'' w0))) =
     [Text ''Hello'', SHIFT_ENTER, Text ''World'', SHIFT_ENTER, ENTER] \<and>
   length (split_lines ''Hello\<newline>World'') = 2"
proof -
  have r: "raised (last (added_calls w0
      (snd (send_whatsapp_message ex_browser ex_config ''Alice'' ''Hello\<newline>World'' w0)))) = None"
    by (simp add: run_defs ex_browser_simps until_poll_first ex_checks ex_contacts w0_def
          ex_split added_calls_def)
  with message_typed_as_one_unit
    [where message = "''Hello\<newline>World''" and w = w0 and b = ex_browser and cfg = ex_config
       and contact_name = "''Alice''"]
  have "typed (added_calls w0
      (snd (send_whatsapp_message ex_browser ex_config ''Alice'' ''Hello\<newline>World'' w0))) =
     message_keys ''Hello\<newline>World''"
    by (simp add: Let_def)
  with r show ?thesis by (simp add: message_keys_def)
qed

text \<open>
  C1 as stated fails: the three lines of the message \<open>A, B, C\<close> are followed by three line
  breaks, not two.
\<close>

theorem three_lines_three_line_breaks:
  "typed (trace (snd (send_whatsapp_message ex_browser ex_config ''Alice'' ''A\<newline>B\<newline>C'' w0))) =
     [Text ''A'', SHIFT_ENTER, Text ''B'', SHIFT_ENTER, Text ''C'', SHIFT_ENTER, ENTER] \<and>
   length (split_lines ''A\<newline>B\<newline>C'') = 3 \<and>
   length (filter (\<lambda>k. k = SHIFT_ENTER)
     (typed (trace (snd (send_whatsapp_message ex_browser ex_config ''Alice'' ''A\<newline>B\<newline>C'' w0)))))
     \<noteq> 3 - 1"
  by (simp add: run_defs ex_browser_simps until_poll_first ex_checks ex_contacts w0_def ex_split2)

section \<open>The release of the session\<close>

text \<open>
  C6. The code at a contact that is not on the page: the driver was attached, the lookup
  of the contact raised, and the sequence ended without the call of \<open>quit\<close>. The call is
  made only at the end of a sequence in which nothing failed.
\<close>

theorem session_not_released_on_failure:
  "map step_of (trace (snd (send_whatsapp_message ex_browser ex_config ''Bob'' ''Hello'' w0))) =
     [Attach, Navigate, AwaitReady, LocateSearch, LocateSearch, TypeQuery, SelectContact] \<and>
   map raised (trace (snd (send_whatsapp_message ex_browser ex_config ''Bob'' ''Hello'' w0))) =
     [None, None, None, None, None, None, Some NoSuchElementException] \<and>
   Quit \<notin> set (map call_of
     (trace (snd (send_whatsapp_message ex_browser ex_config ''Bob'' ''Hello'' w0)))) \<and>
   log (snd (send_whatsapp_message ex_browser ex_config ''Bob'' ''Hello'' w0)) =
     [Sending ''Bob'', WhatsAppLoaded, ErrorSending ''Bob'' NoSuchElementException]"
  by (simp add: run_defs ex_browser_simps until_poll_first ex_checks ex_contacts w0_def)

text \<open>On the page of the examples, the sequence of a contact that is found ends with \<open>quit\<close>.\<close>

lemma session_released_on_success:
  "last (trace (snd (send_whatsapp_message ex_browser ex_config ''Alice'' ''Hello'' w0))) =
     Entry Release Quit None"
  by (simp add: run_defs ex_browser_simps until_poll_first ex_checks ex_contacts w0_def)

text \<open>
  In every run, \<open>quit\<close> is called only when every call of the script before it was made
  and none of them raised.
\<close>

lemma quit_only_after_every_step:
  fixes b :: browser and cfg :: config and contact_name message :: string and w :: world
  defines "new \<equiv> added_calls w (snd (send_whatsapp_message b cfg contact_name message w))"
  assumes "Release \<in> set (map step_of new)"
  shows "map step_of new = step_script message \<and> list_all (\<lambda>c. raised c = None) (butlast new)"
proof -
  note s = send_whatsapp_message_summary
    [where b = b and cfg = cfg and contact_name = contact_name and message = message and w = w,
     folded new_def]
  define init where "init = [Attach, Navigate, AwaitReady, LocateSearch, LocateSearch, TypeQuery,
      SelectContact, SelectContact, LocateInput] @
     concat (map (\<lambda>line. [ComposeSend, ComposeSend]) (split_lines message)) @ [ComposeSend]"
  have sc: "step_script message = init @ [Release]"
    by (simp add: step_script_def init_def)
  have "Release \<notin> set init"
    by (auto simp: init_def)
  with assms(2) have "\<not> prefix (map step_of new) init"
    using set_mono_prefix [of "map step_of new" init] by blast
  with s(5) sc have "map step_of new = step_script message"
    by (simp add: prefix_snoc)
  with s(7) show ?thesis by simp
qed

section \<open>An endpoint that cannot be reached\<close>

lemma send_unreachable:
  assumes "\<not> reachable b (now w)"
  shows "\<exists>e. send_whatsapp_message b cfg c m w =
     (Inr (), w\<lparr>now := Suc (now w),
                trace := trace w @
                  [Entry Attach (Chrome (CHROME_DRIVER_PATH cfg) (REMOTE_DEBUGGER_ADDRESS cfg))
                     (Some e)],
                log := log w @ [Sending c, ErrorSending c e]\<rparr>)"
  using assms
  by (cases "fault b (now w)")
     (auto simp: send_whatsapp_message_def send_body_def seq_def try_except_def logging_def
        driver_call_def webdriver_Chrome_def outcome_def)

lemma send_to_contacts_unreachable:
  assumes u: "\<forall>t. \<not> reachable b t"
  shows "\<exists>new lg.
     fst (send_to_contacts b cfg contacts message w) = Inr () \<and>
     trace (snd (send_to_contacts b cfg contacts message w)) = trace w @ new \<and>
     log (snd (send_to_contacts b cfg contacts message w)) = log w @ lg \<and>
     map step_of new = replicate (length contacts) Attach \<and>
     list_all (\<lambda>c. raised c \<noteq> None) new \<and>
     attempted lg = contacts \<and>
     map fst (failures lg) = contacts \<and>
     delivered lg = []"
proof (induction contacts arbitrary: w)
  case Nil
  show ?case by (simp add: ret_def)
next
  case (Cons c cs)
  from u have "\<not> reachable b (now w)" by simp
  from send_unreachable [OF this, of cfg c message] obtain e w1
    where s: "send_whatsapp_message b cfg c message w = (Inr (), w1)"
    and w1: "w1 = w\<lparr>now := Suc (now w),
                trace := trace w @
                  [Entry Attach (Chrome (CHROME_DRIVER_PATH cfg) (REMOTE_DEBUGGER_ADDRESS cfg))
                     (Some e)],
                log := log w @ [Sending c, ErrorSending c e]\<rparr>"
    by blast
  from s have run: "send_to_contacts b cfg (c # cs) message w = send_to_contacts b cfg cs message w1"
    by (simp add: seq_def)
  from Cons.IH [of w1] obtain new lg
    where "fst (send_to_contacts b cfg cs message w1) = Inr ()"
    and "trace (snd (send_to_contacts b cfg cs message w1)) = trace w1 @ new"
    and "log (snd (send_to_contacts b cfg cs message w1)) = log w1 @ lg"
    and "map step_of new = replicate (length cs) Attach"
    and "list_all (\<lambda>c. raised c \<noteq> None) new"
    and "attempted lg = cs"
    and "map fst (failures lg) = cs"
    and "delivered lg = []"
    by blast
  with run w1 show ?case
    by (intro exI [of _ "Entry Attach (Chrome (CHROME_DRIVER_PATH cfg)
            (REMOTE_DEBUGGER_ADDRESS cfg)) (Some e) # new"]
          exI [of _ "[Sending c, ErrorSending c e] @ lg"]) simp
qed

text \<open>
  C3 (as amended). When the debugging endpoint is never reachable, the run is not
  aborted: the loop returns without an exception, the attach is attempted once in every
  contact's sequence and is the only call of that sequence, every one of these calls
  raises, a failure is logged for every contact of the list, in order, and no message is
  reported sent.
\<close>

theorem unreachable_endpoint_fails_every_contact:
  assumes "\<forall>t. \<not> reachable b t"
  shows "let r = send_to_contacts b cfg contacts message w;
             new = added_calls w (snd r);
             lg = added_log w (snd r)
         in fst r = Inr () \<and>
            map step_of new = replicate (length contacts) Attach \<and>
            list_all (\<lambda>c. raised c \<noteq> None) new \<and>
            attempted lg = contacts \<and>
            map fst (failures lg) = contacts \<and>
            delivered lg = []"
proof -
  from send_to_contacts_unreachable [OF assms, of cfg contacts message w] obtain new lg
    where "fst (send_to_contacts b cfg contacts message w) = Inr ()"
    and "trace (snd (send_to_contacts b cfg contacts message w)) = trace w @ new"
    and "log (snd (send_to_contacts b cfg contacts message w)) = log w @ lg"
    and "map step_of new = replicate (length contacts) Attach"
    and "list_all (\<lambda>c. raised c \<noteq> None) new"
    and "attempted lg = contacts"
    and "map fst (failures lg) = contacts"
    and "delivered lg = []"
    by blast
  then show ?thesis
    by (simp add: Let_def added_calls_def added_log_def)
qed

lemma unreachable_browser_simps:
  "\<not> reachable unreachable_browser t" "fault unreachable_browser t = None"
  by (simp_all add: unreachable_browser_def ex_browser_def)

text \<open>The theorem at two contacts.\<close>

theorem unreachable_endpoint_fails_every_contact_witness:
  "(\<forall>t. \<not> reachable unreachable_browser t) \<and>
   fst (send_to_contacts unreachable_browser ex_config [''Alice'', ''Bob''] ''Hello'' w0) = Inr () \<and>
   map step_of (added_calls w0
     (snd (send_to_contacts unreachable_browser ex_config [''Alice'', ''Bob''] ''Hello'' w0))) =
     [Attach, Attach] \<and>
   map fst (failures (added_log w0
     (snd (send_to_contacts unreachable_browser ex_config [''Alice'', ''Bob''] ''Hello'' w0)))) =
     [''Alice'', ''Bob'']"
proof -
  have u: "\<forall>t. \<not> reachable unreachable_browser t"
    by (simp add: unreachable_browser_simps)
  from unreachable_endpoint_fails_every_contact
    [OF u, where cfg = ex_config and contacts = "[''Alice'', ''Bob'']" and message = "''Hello''"
       and w = w0]
  show ?thesis using u by (simp add: Let_def)
qed

lemma ex_grouped: "group_articles_by_source ex_articles 3 =
     Inr [(Some ''BBC'', [''x'', ''z'', ''w'']), (Some ''Unknown Source'', [''y''])]"
  by (simp add: group_articles_by_source_def ex_articles_def group_article_def article_source_def
        article_headline_def strip_simps)

lemma ex_articles_not_empty: "ex_articles \<noteq> []"
  by (simp add: ex_articles_def)

text \<open>
  C3 as stated fails: with an endpoint that is never reachable the job attaches twice
  for two contacts, records a failure for each and runs to its last log record.
\<close>

theorem unreachable_endpoint_run_completes:
  "CONTACTS ex_config = [''Alice'', ''Bob''] \<and>
   fst (job ex_services unreachable_browser ex_config w0) = Inr () \<and>
   map call_of (trace (snd (job ex_services unreachable_browser ex_config w0))) =
     [Chrome ''chromedriver'' ''127.0.0.1:9222'', Chrome ''chromedriver'' ''127.0.0.1:9222''] \<and>
   failures (log (snd (job ex_services unreachable_browser ex_config w0))) =
     [(''Alice'', WebDriverException), (''Bob'', WebDriverException)] \<and>
   last (log (snd (job ex_services unreachable_browser ex_config w0))) = JobCompleted"
  by (simp add: job_def fetch_news_def fetch_inspirational_quote_def raising_def ex_services_def
        ex_grouped ex_articles_not_empty run_defs unreachable_browser_simps w0_def ex_config_def)

section \<open>A job without articles\<close>

lemma fetch_news_run:
  "\<exists>articles ev. fetch_news sv w = (Inr articles, w\<lparr>log := log w @ [FetchingNews, ev]\<rparr>) \<and>
     (ev = Fetched (length articles) \<or> (\<exists>e. ev = FetchException e) \<or> (\<exists>n. ev = FetchFailed n))"
  by (cases "news sv")
     (auto simp: fetch_news_def seq_def logging_def ret_def split: sum.splits)

text \<open>
  C9. When the news fetching gives the empty list, the job returns after the warning:
  no call is made on the driver, no contact's sequence is started, no message is
  composed, nothing is reported sent or failed, and the job does not reach its last
  log record.
\<close>

theorem job_without_articles_sends_nothing:
  assumes "fst (fetch_news sv w) = Inr []"
  shows "let r = job sv b cfg w; lg = added_log w (snd r)
         in fst r = Inr () \<and> trace (snd r) = trace w \<and>
            attempted lg = [] \<and> delivered lg = [] \<and> failures lg = [] \<and>
            (\<forall>m. Formatted m \<notin> set lg) \<and> JobCompleted \<notin> set lg \<and>
            last lg = NoArticles"
proof -
  define w1 where "w1 = w\<lparr>log := log w @ [JobStarted]\<rparr>"
  from fetch_news_run [of sv w1] obtain articles ev1
    where f1: "fetch_news sv w1 = (Inr articles, w1\<lparr>log := log w1 @ [FetchingNews, ev1]\<rparr>)"
    and ev1: "ev1 = Fetched (length articles) \<or> (\<exists>e. ev1 = FetchException e) \<or>
             (\<exists>n. ev1 = FetchFailed n)"
    by blast
  have same: "fst (fetch_news sv w1) = fst (fetch_news sv w)"
    by (cases "news sv")
       (auto simp: fetch_news_def seq_def logging_def ret_def split: sum.splits)
  with f1 assms have a: "articles = []" by simp
  have "job sv b cfg w = (Inr (), w\<lparr>log := log w @ [JobStarted, FetchingNews, ev1, NoArticles]\<rparr>)"
    by (simp add: job_def seq_def logging_def f1 [unfolded w1_def a] w1_def)
  with ev1 show ?thesis
    by (auto simp: Let_def added_log_def)
qed

text \<open>The theorem at a news service that answers with the status 500.\<close>

theorem job_without_articles_sends_nothing_witness:
  "fst (fetch_news failing_services w0) = Inr [] \<and>
   fst (job failing_services ex_browser ex_config w0) = Inr () \<and>
   trace (snd (job failing_services ex_browser ex_config w0)) = [] \<and>
   attempted (added_log w0 (snd (job failing_services ex_browser ex_config w0))) = [] \<and>
   last (added_log w0 (snd (job failing_services ex_browser ex_config w0))) = NoArticles"
proof -
  have f: "fst (fetch_news failing_services w0) = Inr []"
    by (simp add: fetch_news_def failing_services_def ex_services_def seq_def logging_def ret_def)
  from job_without_articles_sends_nothing [OF f, of ex_browser ex_config] f
  show ?thesis by (simp add: Let_def w0_def)
qed

section \<open>The empty message\<close>










section \<open>Selecting the contact\<close>

text \<open>
  For a name without a double quote the lookup of the contact is exact: it gives the
  first \<open>span\<close> whose title is the name, and raises when there is none.
\<close>

lemma contact_lookup_exact:
  "dquote \<notin> set name \<Longrightarrow>
   locate b (ByXPath (contact_xpath name)) doc =
     (case filter (\<lambda>n. tag n = ''span'' \<and> attr n ''title'' = Some name) doc of
        [] \<Rightarrow> Inl NoSuchElementException
      | n # ns \<Rightarrow> Inr n)"
  by (simp add: locate_def find_elements_def xpath_nodes_contact)

lemma injected_browser_simps:
  "reachable injected_browser t" "fault injected_browser t = None"
  "page injected_browser t = [body_node, search_node, b_node, input_node]"
  by (simp_all add: injected_browser_def ex_browser_def)

lemma injected_xpath:
  "contact_xpath injected_name =
     ''//span[@title='' @ [dquote] @ ''a'' @ [dquote] @ '' or @title='' @ [dquote] @ ''b'' @
     [dquote] @ '']''"
  by (simp add: contact_xpath_def injected_name_def)

lemma injected_titles: "span_titles (contact_xpath injected_name) = Some [''a'', ''b'']"
  by (simp add: span_titles_def contact_xpath_def injected_name_def title_separator_def dquote_def)

lemma injected_checks:
  "check injected_browser (presence_of_element_located (ByTagName ''body''))
     [body_node, search_node, b_node, input_node] = Inr (Some body_node)"
  "check injected_browser (presence_of_element_located (ByXPath search_box_xpath))
     [body_node, search_node, b_node, input_node] = Inr (Some search_node)"
  "check injected_browser (element_to_be_clickable (ByXPath message_box_xpath))
     [body_node, search_node, b_node, input_node] = Inr (Some input_node)"
  by (simp_all add: check_def locate_def find_elements_def
        xpath_nodes_def body_node_def search_node_def b_node_def input_node_def
        attr_def search_box_xpath_def message_box_xpath_def)

lemma injected_lookup:
  "locate injected_browser (ByXPath (contact_xpath injected_name))
     [body_node, search_node, b_node, input_node] = Inr b_node"
  by (simp add: locate_def find_elements_def xpath_nodes_def contact_xpath_other injected_titles
        body_node_def search_node_def b_node_def input_node_def attr_def)

text \<open>
  C7. The code at a contact name with a double quote in it. The name is pasted into the
  XPath expression as it is, so the expression asks for a title \<open>a\<close> or a title \<open>b\<close>.
  On a page whose only chat is that of \<open>b\<close>, the chat of \<open>b\<close> is clicked, whose title is
  not the contact's name, and the message is reported sent to the contact.
\<close>

theorem quoted_contact_name_selects_other_chat:
  "contact_xpath injected_name =
     ''//span[@title='' @ [dquote] @ ''a'' @ [dquote] @ '' or @title='' @ [dquote] @ ''b'' @
     [dquote] @ '']'' \<and>
   map call_of (filter (\<lambda>c. step_of c = SelectContact)
     (trace (snd (send_whatsapp_message injected_browser ex_config injected_name ''Hello'' w0)))) =
     [FindElement (ByXPath (contact_xpath injected_name)), Click b_node] \<and>
   attr b_node ''title'' = Some ''b'' \<and> ''b'' \<noteq> injected_name \<and>
   delivered (log (snd (send_whatsapp_message injected_browser ex_config injected_name ''Hello'' w0)))
     = [injected_name]"
proof -
  have "attr b_node ''title'' = Some ''b''" "''b'' \<noteq> injected_name"
    by (simp_all add: attr_def b_node_def injected_name_def)
  moreover have "map call_of (filter (\<lambda>c. step_of c = SelectContact)
     (trace (snd (send_whatsapp_message injected_browser ex_config injected_name ''Hello'' w0)))) =
     [FindElement (ByXPath (contact_xpath injected_name)), Click b_node]"
    "delivered (log (snd (send_whatsapp_message injected_browser ex_config injected_name ''Hello'' w0)))
     = [injected_name]"
    by (simp_all add: run_defs injected_browser_simps until_poll_first injected_checks
          injected_lookup w0_def)
  ultimately show ?thesis using injected_xpath by blast
qed

section \<open>Waiting for an element, and looking it up once\<close>

lemma until_poll_timeout:
  assumes "\<forall>t. fault b t = None" and "\<forall>doc. \<exists>r. check b c doc = Inr r"
  shows "fst (until_poll b c k t) = Inl e \<Longrightarrow>
         e = TimeoutException \<and> (\<forall>j<k. check b c (page b (t + j)) = Inr None)"
proof (induction k arbitrary: t)
  case 0
  then show ?case by simp
next
  case (Suc k)
  from assms(2) obtain r where r: "check b c (page b t) = Inr r" by blast
  show ?case
  proof (cases r)
    case None
    with Suc.prems r assms(1) have "fst (until_poll b c k (Suc t)) = Inl e" by simp
    from Suc.IH [OF this] have e: "e = TimeoutException"
      and rest: "\<forall>j<k. check b c (page b (Suc t + j)) = Inr None" by simp_all
    have "check b c (page b (t + j)) = Inr None" if "j < Suc k" for j
    proof (cases j)
      case 0
      with r None show ?thesis by simp
    next
      case (Suc i)
      with that rest show ?thesis by simp
    qed
    with e show ?thesis by simp
  next
    case (Some n)
    with Suc.prems r assms(1) show ?thesis by simp
  qed
qed

lemma until_poll_found:
  assumes "\<forall>t. fault b t = None" and "\<forall>doc. \<exists>r. check b c doc = Inr r"
  shows "j < k \<Longrightarrow> check b c (page b (t + j)) = Inr (Some n) \<Longrightarrow>
         \<exists>n'. fst (until_poll b c k t) = Inr n'"
proof (induction k arbitrary: t j)
  case 0
  then show ?case by simp
next
  case (Suc k)
  from assms(2) obtain r where r: "check b c (page b t) = Inr r" by blast
  show ?case
  proof (cases r)
    case (Some m)
    with r assms(1) show ?thesis by simp
  next
    case None
    with Suc.prems r obtain i where j: "j = Suc i" by (cases j) auto
    with Suc.prems have "i < k" "check b c (page b (Suc t + i)) = Inr (Some n)" by simp_all
    from Suc.IH [OF this] r None assms(1) show ?thesis by simp
  qed
qed

lemma calls_follow_ret: "calls_follow (ret x) []"
  by (simp add: calls_follow_def ret_def)

lemma calls_follow_logging: "calls_follow (logging ev) []"
  by (simp add: calls_follow_def logging_def)

lemma calls_follow_sleep: "calls_follow (sleep n) []"
  by (simp add: calls_follow_def sleep_def)

lemma calls_follow_driver_call: "calls_follow (driver_call b s c a) [forget c]"
  by (auto simp: calls_follow_def driver_call_def Let_def split: option.splits sum.splits)

lemma calls_follow_wait_until: "calls_follow (wait_until b s n c) [Until n c]"
  by (auto simp: calls_follow_def wait_until_def split: prod.splits sum.splits)

lemma calls_follow_seq:
  assumes m: "calls_follow m cs1" and f: "\<And>x. calls_follow (f x) cs2"
  shows "calls_follow (seq m f) (cs1 @ cs2)"
  unfolding calls_follow_def
proof
  fix w :: world
  from m obtain new1 where t1: "trace (snd (m w)) = trace w @ new1"
    and c1: "case fst (m w) of
           Inr x \<Rightarrow> map (forget \<circ> call_of) new1 = cs1
         | Inl e \<Rightarrow> prefix (map (forget \<circ> call_of) new1) cs1"
    unfolding calls_follow_def by blast
  show "\<exists>new. trace (snd (seq m f w)) = trace w @ new \<and>
        (case fst (seq m f w) of
           Inr x \<Rightarrow> map (forget \<circ> call_of) new = cs1 @ cs2
         | Inl e \<Rightarrow> prefix (map (forget \<circ> call_of) new) (cs1 @ cs2))"
  proof (cases "fst (m w)")
    case (Inl e)
    then have "seq m f w = (Inl e, snd (m w))"
      by (cases "m w") (simp add: seq_def)
    with t1 c1 Inl show ?thesis
      by (intro exI [of _ new1]) (auto simp: prefix_def)
  next
    case (Inr x)
    then have s: "seq m f w = f x (snd (m w))"
      by (cases "m w") (simp add: seq_def)
    from f [of x] obtain new2
      where t2: "trace (snd (f x (snd (m w)))) = trace (snd (m w)) @ new2"
      and c2: "case fst (f x (snd (m w))) of
           Inr y \<Rightarrow> map (forget \<circ> call_of) new2 = cs2
         | Inl e \<Rightarrow> prefix (map (forget \<circ> call_of) new2) cs2"
      unfolding calls_follow_def by blast
    from c1 Inr have ok1: "map (forget \<circ> call_of) new1 = cs1" by simp
    from c2 ok1 t1 t2 s show ?thesis
      by (intro exI [of _ "new1 @ new2"]) (cases "fst (f x (snd (m w)))", simp_all)
  qed
qed

lemma calls_follow_type_lines:
  "calls_follow (type_lines b box lines)
     (concat (map (\<lambda>line. [SendKeys no_node (Text line), SendKeys no_node SHIFT_ENTER]) lines))"
proof (induction lines)
  case Nil
  show ?case by (simp add: calls_follow_ret)
next
  case (Cons line lines)
  have "calls_follow (type_lines b box (line # lines))
          ([forget (SendKeys box (Text line))] @ [forget (SendKeys box SHIFT_ENTER)] @
           concat (map (\<lambda>line. [SendKeys no_node (Text line), SendKeys no_node SHIFT_ENTER])
                     lines))"
    unfolding type_lines.simps send_keys_def
    by (intro calls_follow_seq calls_follow_driver_call Cons.IH)
  then show ?case by simp
qed

lemma forget_simps:
  "[forget (Click n)] = [Click no_node]" "[forget (SendKeys n k)] = [SendKeys no_node k]"
  by simp_all

lemma calls_follow_click: "calls_follow (click b s n) [Click no_node]"
  using calls_follow_driver_call [of b s "Click n"] by (simp add: click_def)

lemma calls_follow_send_keys: "calls_follow (send_keys b s n k) [SendKeys no_node k]"
  using calls_follow_driver_call [of b s "SendKeys n k"] by (simp add: send_keys_def)

lemma calls_follow_send_body:
  "calls_follow (send_body b cfg contact_name message) (call_script cfg contact_name message)"
proof -
  have "calls_follow (send_body b cfg contact_name message)
     ([forget (Chrome (CHROME_DRIVER_PATH cfg) (REMOTE_DEBUGGER_ADDRESS cfg))] @
      [forget (Get (WHATSAPP_URL cfg))] @
      [Until 20 (presence_of_element_located (ByTagName ''body''))] @ [] @
      [Until 20 (presence_of_element_located (ByXPath search_box_xpath))] @
      [Click no_node] @ [SendKeys no_node (Text contact_name)] @ [] @
      [forget (FindElement (ByXPath (contact_xpath contact_name)))] @
      [Click no_node] @ [] @
      [Until 20 (element_to_be_clickable (ByXPath message_box_xpath))] @
      concat (map (\<lambda>line. [SendKeys no_node (Text line), SendKeys no_node SHIFT_ENTER])
               (split_lines message)) @
      [SendKeys no_node ENTER] @ [] @ [] @ [forget Quit])"
    unfolding send_body_def webdriver_Chrome_def driver_get_def find_element_def driver_quit_def
    by (intro calls_follow_seq calls_follow_click calls_follow_send_keys
          calls_follow_driver_call calls_follow_wait_until calls_follow_logging
          calls_follow_sleep calls_follow_type_lines)
  then show ?thesis by (simp add: call_script_def)
qed

lemma send_whatsapp_message_calls:
  "prefix (map (forget \<circ> call_of)
             (added_calls w (snd (send_whatsapp_message b cfg contact_name message w))))
     (call_script cfg contact_name message)"
proof -
  define w1 where "w1 = w\<lparr>log := log w @ [Sending contact_name]\<rparr>"
  define body where "body = send_body b cfg contact_name message"
  have run: "trace (snd (send_whatsapp_message b cfg contact_name message w)) = trace (snd (body w1))"
    by (cases "body w1"; cases "fst (body w1)")
       (simp_all add: send_whatsapp_message_def seq_def logging_def try_except_def w1_def
          body_def)
  from calls_follow_send_body [of b cfg contact_name message]
  obtain new where t: "trace (snd (body w1)) = trace w1 @ new"
    and c: "case fst (body w1) of
           Inr x \<Rightarrow> map (forget \<circ> call_of) new = call_script cfg contact_name message
         | Inl e \<Rightarrow> prefix (map (forget \<circ> call_of) new) (call_script cfg contact_name message)"
    unfolding calls_follow_def body_def by blast
  from c have "prefix (map (forget \<circ> call_of) new) (call_script cfg contact_name message)"
    by (cases "fst (body w1)") simp_all
  moreover from run t have "added_calls w (snd (send_whatsapp_message b cfg contact_name message w)) = new"
    by (simp add: added_calls_def w1_def)
  ultimately show ?thesis by simp
qed

lemma lookups_of_script:
  "filter is_lookup (call_script cfg contact_name message) =
     [Until 20 (presence_of_element_located (ByTagName ''body'')),
      Until 20 (presence_of_element_located (ByXPath search_box_xpath)),
      FindElement (ByXPath (contact_xpath contact_name)),
      Until 20 (element_to_be_clickable (ByXPath message_box_xpath))]"
proof -
  have "filter is_lookup
      (concat (map (\<lambda>line. [SendKeys no_node (Text line), SendKeys no_node SHIFT_ENTER]) lines)) = []"
    for lines
    by (induction lines) (simp_all add: is_lookup_def)
  then show ?thesis by (simp add: call_script_def is_lookup_def)
qed

lemma waits_of_script:
  assumes "Until seconds c \<in> set (call_script cfg contact_name message)"
  shows "seconds = 20 \<and>
         (c = presence_of_element_located (ByTagName ''body'') \<or>
          c = presence_of_element_located (ByXPath search_box_xpath) \<or>
          c = element_to_be_clickable (ByXPath message_box_xpath))"
proof -
  from assms have "Until seconds c \<in> set (filter is_lookup (call_script cfg contact_name message))"
    by (simp add: is_lookup_def)
  then show ?thesis by (auto simp: lookups_of_script)
qed

lemma find_of_script:
  assumes "FindElement loc \<in> set (call_script cfg contact_name message)"
  shows "loc = ByXPath (contact_xpath contact_name)"
proof -
  from assms have "FindElement loc \<in> set (filter is_lookup (call_script cfg contact_name message))"
    by (simp add: is_lookup_def)
  then show ?thesis by (auto simp: lookups_of_script)
qed

lemma check_of_script:
  assumes "Until seconds c \<in> set (call_script cfg contact_name message)"
  shows "\<exists>r. check b c doc = Inr r"
  using waits_of_script [OF assms]
  by (auto simp: check_def locate_def find_elements_def xpath_nodes_def split: list.splits)

text \<open>
  C8 (as amended). The calls of one contact's sequence are, without their elements, a
  prefix of the script of calls, in which the lookups are, in this order: a wait of 20
  seconds for the page body, a wait of 20 seconds for the search box, one
  \<open>find_element\<close> for the contact entry, and a wait of 20 seconds for the message box to
  be clickable. In a browser that raises no fault, each wait of the script polls at 41
  instants half a second apart: it fails only with a timeout and only when the element
  was found at none of these instants, and it returns an element whenever one is found at
  any of them. The \<open>find_element\<close> of the script does not wait: its result
  is that of one lookup on the page of the present instant, and it raises
  \<open>NoSuchElementException\<close> when that page has no match.
\<close>

theorem waits_poll_but_contact_lookup_does_not:
  "let new = added_calls w (snd (send_whatsapp_message b cfg contact_name message w));
       script = call_script cfg contact_name message
   in prefix (map (forget \<circ> call_of) new) script \<and>
      filter is_lookup script =
        [Until 20 (presence_of_element_located (ByTagName ''body'')),
         Until 20 (presence_of_element_located (ByXPath search_box_xpath)),
         FindElement (ByXPath (contact_xpath contact_name)),
         Until 20 (element_to_be_clickable (ByXPath message_box_xpath))] \<and>
      (\<forall>c. Until 20 c \<in> set script \<and> (\<forall>t. fault b t = None) \<longrightarrow>
         (\<forall>s w1 e. fst (wait_until b s 20 c w1) = Inl e \<longrightarrow>
            e = TimeoutException \<and> (\<forall>j<41. check b c (page b (now w1 + j)) = Inr None)) \<and>
         (\<forall>s w1 j n. j < 41 \<and> check b c (page b (now w1 + j)) = Inr (Some n) \<longrightarrow>
            (\<exists>n'. fst (wait_until b s 20 c w1) = Inr n'))) \<and>
      (\<forall>loc w1. FindElement loc \<in> set script \<and> fault b (now w1) = None \<longrightarrow>
         fst (find_element b SelectContact loc w1) = locate b loc (page b (now w1)) \<and>
         (find_elements b loc (page b (now w1)) = Inr [] \<longrightarrow>
            fst (find_element b SelectContact loc w1) = Inl NoSuchElementException))"
proof -
  have p: "polls 20 = 41" by (simp add: polls_def)
  have wu: "fst (wait_until b s 20 c w1) = fst (until_poll b c 41 (now w1))" for s c w1
    by (simp add: wait_until_def p split: prod.splits)
  have waits: "(\<forall>s w1 e. fst (wait_until b s 20 c w1) = Inl e \<longrightarrow>
            e = TimeoutException \<and> (\<forall>j<41. check b c (page b (now w1 + j)) = Inr None)) \<and>
         (\<forall>s w1 j n. j < 41 \<and> check b c (page b (now w1 + j)) = Inr (Some n) \<longrightarrow>
            (\<exists>n'. fst (wait_until b s 20 c w1) = Inr n'))"
    if c: "Until 20 c \<in> set (call_script cfg contact_name message)"
      and nf: "\<forall>t. fault b t = None" for c
  proof -
    from check_of_script [OF c] have tot: "\<forall>doc. \<exists>r. check b c doc = Inr r" by blast
    show ?thesis
      using until_poll_timeout [OF nf tot, of 41] until_poll_found [OF nf tot, of _ 41]
      by (auto simp: wu)
  qed
  have find: "fst (find_element b SelectContact loc w1) = locate b loc (page b (now w1)) \<and>
         (find_elements b loc (page b (now w1)) = Inr [] \<longrightarrow>
            fst (find_element b SelectContact loc w1) = Inl NoSuchElementException)"
    if "fault b (now w1) = None" for loc w1
    using that by (simp add: find_element_def driver_call_def Let_def locate_def)
  from send_whatsapp_message_calls [of w b cfg contact_name message]
    lookups_of_script [of cfg contact_name message] waits find
  show ?thesis
    unfolding Let_def by blast
qed

lemma slow_browser_simps:
  "fault slow_browser t = None"
  "page slow_browser t = (if t < 5 then [body_node] else ex_page)"
  by (simp_all add: slow_browser_def ex_browser_def)

lemma slow_checks:
  "check slow_browser (presence_of_element_located (ByXPath search_box_xpath)) [body_node] =
     Inr None"
  "check slow_browser (presence_of_element_located (ByXPath search_box_xpath)) ex_page =
     Inr (Some search_node)"
  by (simp_all add: check_def locate_def find_elements_def
        xpath_nodes_def ex_page_def body_node_def search_node_def alice_node_def input_node_def
        attr_def search_box_xpath_def message_box_xpath_def)

text \<open>
  The theorem at a page on which the search box appears one second after the wait for
  it starts, and the chat of Alice is not there at the instant of the lookup.
\<close>

theorem waits_poll_but_contact_lookup_does_not_witness:
  "Until 20 (presence_of_element_located (ByXPath search_box_xpath)) \<in>
     set (call_script ex_config ''Alice'' ''Hello'') \<and>
   (\<forall>t. fault slow_browser t = None) \<and>
   check slow_browser (presence_of_element_located (ByXPath search_box_xpath))
     (page slow_browser 3) = Inr None \<and>
   check slow_browser (presence_of_element_located (ByXPath search_box_xpath))
     (page slow_browser (3 + 2)) = Inr (Some search_node) \<and>
   (\<exists>n'. fst (wait_until slow_browser LocateSearch 20
            (presence_of_element_located (ByXPath search_box_xpath)) (w0\<lparr>now := 3\<rparr>)) = Inr n') \<and>
   FindElement (ByXPath (contact_xpath ''Alice'')) \<in> set (call_script ex_config ''Alice'' ''Hello'') \<and>
   fst (find_element slow_browser SelectContact (ByXPath (contact_xpath ''Alice''))
          (w0\<lparr>now := 3\<rparr>)) = Inl NoSuchElementException"
proof -
  let ?c = "presence_of_element_located (ByXPath search_box_xpath)"
  let ?w = "w0\<lparr>now := 3\<rparr>"
  let ?loc = "ByXPath (contact_xpath ''Alice'')"
  have f: "\<forall>t. fault slow_browser t = None" by (simp add: slow_browser_simps)
  have m: "Until 20 ?c \<in> set (call_script ex_config ''Alice'' ''Hello'')"
    by (simp add: call_script_def)
  have m2: "FindElement ?loc \<in> set (call_script ex_config ''Alice'' ''Hello'')"
    by (simp add: call_script_def)
  have c3: "check slow_browser ?c (page slow_browser 3) = Inr None"
    by (simp add: slow_browser_simps slow_checks)
  have c5: "check slow_browser ?c (page slow_browser (now ?w + 2)) = Inr (Some search_node)"
    by (simp add: slow_browser_simps slow_checks)
  have e: "find_elements slow_browser ?loc (page slow_browser (now ?w)) = Inr []"
    by (simp add: slow_browser_simps find_elements_def xpath_nodes_contact dquote_def
          body_node_def)
  note inst = waits_poll_but_contact_lookup_does_not
    [where b = slow_browser and cfg = ex_config and contact_name = "''Alice''"
       and message = "''Hello''" and w = w0, unfolded Let_def]
  from inst m f
  have "\<forall>s w1 j n. j < 41 \<and>
          check slow_browser ?c (page slow_browser (now w1 + j)) = Inr (Some n) \<longrightarrow>
          (\<exists>n'. fst (wait_until slow_browser s 20 ?c w1) = Inr n')"
    by blast
  from this [rule_format, of 2 ?w search_node LocateSearch] c5
  have a: "\<exists>n'. fst (wait_until slow_browser LocateSearch 20 ?c ?w) = Inr n'"
    by simp
  from inst m2 f
  have "find_elements slow_browser ?loc (page slow_browser (now ?w)) = Inr [] \<longrightarrow>
          fst (find_element slow_browser SelectContact ?loc ?w) = Inl NoSuchElementException"
    by blast
  with e have b: "fst (find_element slow_browser SelectContact ?loc ?w) = Inl NoSuchElementException"
    by blast
  from c5 have c5': "check slow_browser ?c (page slow_browser (3 + 2)) = Inr (Some search_node)"
    by simp
  from m f c3 c5' a m2 b show ?thesis by blast
qed

lemma late_browser_simps:
  "reachable late_browser t" "fault late_browser t = None"
  "page late_browser t = (if t < 11 then [body_node, search_node, input_node] else ex_page)"
  by (simp_all add: late_browser_def ex_browser_def)

lemma late_checks:
  "check late_browser (presence_of_element_located (ByTagName ''body''))
     [body_node, search_node, input_node] = Inr (Some body_node)"
  "check late_browser (presence_of_element_located (ByXPath search_box_xpath))
     [body_node, search_node, input_node] = Inr (Some search_node)"
  by (simp_all add: check_def locate_def find_elements_def
        xpath_nodes_def body_node_def search_node_def input_node_def
        attr_def search_box_xpath_def)

lemma late_contacts:
  "locate late_browser (ByXPath (contact_xpath ''Alice'')) [body_node, search_node, input_node] =
     Inl NoSuchElementException"
  "locate late_browser (ByXPath (contact_xpath ''Alice'')) ex_page = Inr alice_node"
  by (simp_all add: locate_def find_elements_def xpath_nodes_contact dquote_def
        ex_page_def body_node_def search_node_def alice_node_def input_node_def attr_def)

text \<open>
  C8 as stated fails for the contact entry: it appears on the page at instant 11, the one
  lookup is made at instant 10 and raises at once, and the contact fails.
\<close>

theorem contact_lookup_does_not_wait:
  "locate late_browser (ByXPath (contact_xpath ''Alice'')) (page late_browser 11) =
     Inr alice_node \<and>
   map (\<lambda>c. (call_of c, raised c)) (filter (\<lambda>c. step_of c = SelectContact)
     (trace (snd (send_whatsapp_message late_browser ex_config ''Alice'' ''Hello'' w0)))) =
     [(FindElement (ByXPath (contact_xpath ''Alice'')), Some NoSuchElementException)] \<and>
   now (snd (send_whatsapp_message late_browser ex_config ''Alice'' ''Hello'' w0)) = 11 \<and>
   failures (log (snd (send_whatsapp_message late_browser ex_config ''Alice'' ''Hello'' w0))) =
     [(''Alice'', NoSuchElementException)]"
  by (simp add: run_defs late_browser_simps until_poll_first late_checks late_contacts w0_def)

end
